theory Spec2Isabelle
  imports Complex_Main "HOL-Library.AList" "HOL-Library.Char_ord" "HOL-Library.List_Lexorder"
begin

section \<open>Text, characters and the two token classes\<close>

text \<open>
  The analysed text is a Python \<open>str\<close>, a sequence of Unicode code points. It is modelled
  as a \<open>string\<close>, whose characters are the code points below 256. In that range the
  regular-expression class \<open>\s\<close> of a \<open>str\<close> pattern holds the code points 9 to 13,
  28 to 32, 133 and 160, and \<open>\d\<close> holds the ten ASCII digits.
\<close>

definition is_space :: "char \<Rightarrow> bool" where
  "is_space c \<longleftrightarrow>
     c \<in> set [CHR 0x09, CHR 0x0A, CHR 0x0B, CHR 0x0C, CHR 0x0D,
               CHR 0x1C, CHR 0x1D, CHR 0x1E, CHR 0x1F, CHR 0x20, CHR 0x85, CHR 0xA0]"

definition is_digit :: "char \<Rightarrow> bool" where
  "is_digit c \<longleftrightarrow> c \<in> set ''0123456789''"

text \<open>
  Every pattern of \<open>parse_stats_file\<close> has the shape \<open>literal \s+ (class+)\<close>, where the
  class is either \<open>\d\<close> or \<open>[\d\.e\-\+]\<close>.
\<close>

datatype tokclass = Digits | Numeric

fun in_class :: "tokclass \<Rightarrow> char \<Rightarrow> bool" where
  "in_class Digits c = is_digit c"
| "in_class Numeric c = (is_digit c \<or> c \<in> set ''.e-+'')"

type_synonym pattern = "string \<times> tokclass"

section \<open>\<open>re.search\<close> on a pattern of that shape\<close>

text \<open>Matching the literal part: the rest of the text behind it, if the text starts with it.\<close>

fun strip_prefix :: "string \<Rightarrow> string \<Rightarrow> string option" where
  "strip_prefix [] s = Some s"
| "strip_prefix (a # as) [] = None"
| "strip_prefix (a # as) (c # cs) = (if a = c then strip_prefix as cs else None)"

text \<open>
  \<open>match_here p s\<close> is the attempt to match \<open>p\<close> at the start of \<open>s\<close>; it returns
  group 1. Both quantifiers are greedy. No whitespace character is in a token class, so
  giving back whitespace never turns a failed attempt into a match, and the greedy choice
  is the only one the backtracking matcher can succeed with.
\<close>

definition match_here :: "pattern \<Rightarrow> string \<Rightarrow> string option" where
  "match_here p s =
     (case strip_prefix (fst p) s of
        None \<Rightarrow> None
      | Some r \<Rightarrow>
          (let tok = takeWhile (in_class (snd p)) (dropWhile is_space r)
           in if takeWhile is_space r \<noteq> [] \<and> tok \<noteq> [] then Some tok else None))"

text \<open>\<open>re.search\<close> tries the start positions from left to right and stops at the first match.\<close>

fun re_search :: "pattern \<Rightarrow> string \<Rightarrow> string option" where
  "re_search p [] = match_here p []"
| "re_search p (c # cs) =
     (case match_here p (c # cs) of Some tok \<Rightarrow> Some tok | None \<Rightarrow> re_search p cs)"

section \<open>Numeric conversion: \<open>int(value)\<close> and \<open>float(value)\<close>\<close>

text \<open>
  A stored value is a Python \<open>int\<close>, a \<open>float\<close> or, when the conversion raised
  \<open>ValueError\<close>, the token itself. A \<open>float\<close> is idealised as the rational number its
  decimal literal denotes: rounding to binary64 is not modelled, and the range of the
  format only where Python raises on it (\<open>float_overflows\<close> below). \<open>float\<close> of a
  string never raises on the range: it gives an infinity.
\<close>

datatype pyval = VInt int | VFloat rat | VStr string

definition digit_val :: "char \<Rightarrow> nat" where
  "digit_val c = of_char c - 48"

definition nat_of_digits :: "string \<Rightarrow> nat" where
  "nat_of_digits ds = foldl (\<lambda>a c. 10 * a + digit_val c) 0 ds"

definition all_digits :: "string \<Rightarrow> bool" where
  "all_digits ds \<longleftrightarrow> ds \<noteq> [] \<and> list_all is_digit ds"

text \<open>An optional sign in front of the rest: the sign as \<open>1\<close> or \<open>-1\<close>.\<close>

fun split_sign :: "string \<Rightarrow> int \<times> string" where
  "split_sign [] = (1, [])"
| "split_sign (c # cs) =
     (if c = CHR ''-'' then (-1, cs) else if c = CHR ''+'' then (1, cs) else (1, c # cs))"

text \<open>
  CPython bounds the number of digits \<open>int\<close> converts from a string:
  \<open>sys.int_info.default_max_str_digits\<close>, the limit of an interpreter started with its
  defaults. \<open>float\<close> has no such bound.
\<close>

definition max_str_digits :: nat where
  "max_str_digits = 4300"

text \<open>
  \<open>int(value)\<close> on a token: an optional sign and at least one digit, anything else raises
  \<open>ValueError\<close> (\<open>None\<close>), and so does a run of more than \<open>max_str_digits\<close> digits. The
  tokens the patterns capture hold no blank and no underscore, the other characters
  \<open>int\<close> accepts.
\<close>

definition py_int :: "string \<Rightarrow> int option" where
  "py_int s =
     (case split_sign s of (sg, ds) \<Rightarrow>
        if all_digits ds \<and> length ds \<le> max_str_digits
        then Some (sg * int (nat_of_digits ds)) else None)"

text \<open>
  \<open>float(value)\<close> on a token: an optional sign, a mantissa with digits before or after an
  optional point (at least one digit in all), and an optional exponent \<open>e\<close>, optional
  sign, digits. Anything else raises \<open>ValueError\<close>.
\<close>

definition is_e :: "char \<Rightarrow> bool" where
  "is_e c \<longleftrightarrow> c = CHR ''e'' \<or> c = CHR ''E''"

definition py_mantissa :: "string \<Rightarrow> rat option" where
  "py_mantissa m =
     (let ip = takeWhile is_digit m; r = dropWhile is_digit m
      in case r of
           [] \<Rightarrow> if ip = [] then None else Some (of_nat (nat_of_digits ip))
         | c # fp \<Rightarrow>
             if c = CHR ''.'' \<and> list_all is_digit fp \<and> (ip \<noteq> [] \<or> fp \<noteq> [])
             then Some (of_nat (nat_of_digits ip) + of_nat (nat_of_digits fp) / 10 ^ length fp)
             else None)"

definition py_exponent :: "string \<Rightarrow> int option" where
  "py_exponent x =
     (case x of
        [] \<Rightarrow> Some 0
      | c # ex \<Rightarrow>
          (case split_sign ex of (sg, ds) \<Rightarrow>
             if all_digits ds then Some (sg * int (nat_of_digits ds)) else None))"

definition py_float :: "string \<Rightarrow> rat option" where
  "py_float s =
     (case split_sign s of (sg, body) \<Rightarrow>
        (case (py_mantissa (takeWhile (\<lambda>c. \<not> is_e c) body),
               py_exponent (dropWhile (\<lambda>c. \<not> is_e c) body)) of
           (Some m, Some x) \<Rightarrow>
             Some (of_int sg * m * (if 0 \<le> x then 10 ^ nat x else 1 / 10 ^ nat (- x)))
         | _ \<Rightarrow> None))"

text \<open>
  The body of the \<open>try\<close>: a token with a point or an \<open>e\<close> (in either case) goes to
  \<open>float\<close>, any other to \<open>int\<close>; on \<open>ValueError\<close> the token is kept.
\<close>

definition convert :: "string \<Rightarrow> pyval" where
  "convert v =
     (if CHR ''.'' \<in> set v \<or> list_ex is_e v
      then (case py_float v of Some r \<Rightarrow> VFloat r | None \<Rightarrow> VStr v)
      else (case py_int v of Some i \<Rightarrow> VInt i | None \<Rightarrow> VStr v))"

section \<open>The metric catalog and the extraction loop\<close>

text \<open>The dictionary \<open>patterns\<close> of \<open>parse_stats_file\<close>, in its insertion order.\<close>

definition patterns :: "(string \<times> pattern) list" where
  "patterns =
     [(''sim_seconds'', (''sim_seconds'', Numeric)),
      (''sim_insts'', (''sim_insts'', Digits)),
      (''host_inst_rate'', (''host_inst_rate'', Numeric)),
      (''committedInsts'', (''system.cpu.committedInsts'', Digits)),
      (''numCycles'', (''system.cpu.numCycles'', Digits)),
      (''ipc'', (''system.cpu.ipc'', Numeric)),
      (''branch_lookups'', (''system.cpu.branchPred.lookups'', Digits)),
      (''branch_condPredicted'', (''system.cpu.branchPred.condPredicted'', Digits)),
      (''branch_condIncorrect'', (''system.cpu.branchPred.condIncorrect'', Digits)),
      (''icache_overall_hits'', (''system.cpu.icache.overall_hits::total'', Digits)),
      (''icache_overall_misses'', (''system.cpu.icache.overall_misses::total'', Digits)),
      (''dcache_overall_hits'', (''system.cpu.dcache.overall_hits::total'', Digits)),
      (''dcache_overall_misses'', (''system.cpu.dcache.overall_misses::total'', Digits)),
      (''l2cache_overall_hits'', (''system.l2cache.overall_hits::total'', Digits)),
      (''l2cache_overall_misses'', (''system.l2cache.overall_misses::total'', Digits)),
      (''fetch_rate'', (''system.cpu.fetch.rate'', Numeric)),
      (''decode_rate'', (''system.cpu.decode.rate'', Numeric)),
      (''rename_rate'', (''system.cpu.rename.rate'', Numeric)),
      (''iew_rate'', (''system.cpu.iew.rate'', Numeric)),
      (''commit_rate'', (''system.cpu.commit.rate'', Numeric)),
      (''rob_reads'', (''system.cpu.rob.reads'', Digits)),
      (''rob_writes'', (''system.cpu.rob.writes'', Digits)),
      (''iq_reads'', (''system.cpu.iq.reads'', Digits)),
      (''iq_writes'', (''system.cpu.iq.writes'', Digits))]"

text \<open>The report: a dictionary from metric names to values.\<close>

type_synonym metrics = "string \<rightharpoonup> pyval"

text \<open>One turn of the loop over \<open>patterns.items()\<close>: a metric without a match is left out.\<close>

definition extract_step :: "string \<Rightarrow> string \<times> pattern \<Rightarrow> metrics \<Rightarrow> metrics" where
  "extract_step content mp m =
     (case re_search (snd mp) content of
        None \<Rightarrow> m
      | Some v \<Rightarrow> m(fst mp \<mapsto> convert v))"

definition extract_metrics :: "string \<Rightarrow> metrics" where
  "extract_metrics content = fold (extract_step content) patterns Map.empty"

section \<open>Derived metrics\<close>

text \<open>
  The arithmetic of the derived metrics on stored values, with the exceptions Python
  raises: comparing or dividing a \<open>str\<close> raises \<open>TypeError\<close>, dividing by zero raises
  \<open>ZeroDivisionError\<close>, and an \<open>int\<close> that has to become a \<open>float\<close>, or a quotient of
  two \<open>int\<close>s, raises \<open>OverflowError\<close> when it is too large for a \<open>float\<close>. \<open>/\<close> is true
  division and always gives a \<open>float\<close>.
\<close>

datatype py_error =
  TypeError | ZeroDivisionError | OverflowError
| FileNotFoundError | IsADirectoryError | NotADirectoryError

text \<open>
  The one place where the range of binary64 decides control flow: a number rounds to an
  infinity from \<open>2^1024 - 2^970\<close> on, halfway between the largest finite \<open>float\<close> and
  \<open>2^1024\<close>. Arithmetic on two \<open>float\<close>s gives an infinity there and raises nothing.
\<close>

definition float_overflows :: "rat \<Rightarrow> bool" where
  "float_overflows x \<longleftrightarrow> 2 ^ 1024 - 2 ^ 970 \<le> \<bar>x\<bar>"

definition int_to_float :: "int \<Rightarrow> py_error + rat" where
  "int_to_float i = (if float_overflows (of_int i) then Inl OverflowError else Inr (of_int i))"

fun num_of :: "pyval \<Rightarrow> rat option" where
  "num_of (VInt i) = Some (of_int i)"
| "num_of (VFloat r) = Some r"
| "num_of (VStr s) = None"

definition py_gt_zero :: "pyval \<Rightarrow> py_error + bool" where
  "py_gt_zero v = (case num_of v of None \<Rightarrow> Inl TypeError | Some x \<Rightarrow> Inr (0 < x))"

text \<open>
  \<open>a / b\<close>. Two \<open>int\<close>s are divided exactly and the quotient is rounded; with a \<open>float\<close>
  on one side the \<open>int\<close> on the other is converted first.
\<close>

fun py_truediv :: "pyval \<Rightarrow> pyval \<Rightarrow> py_error + pyval" where
  "py_truediv (VInt x) (VInt y) =
     (if y = 0 then Inl ZeroDivisionError
      else if float_overflows (of_int x / of_int y) then Inl OverflowError
      else Inr (VFloat (of_int x / of_int y)))"
| "py_truediv (VInt x) (VFloat y) =
     (case int_to_float x of
        Inl e \<Rightarrow> Inl e
      | Inr x' \<Rightarrow> if y = 0 then Inl ZeroDivisionError else Inr (VFloat (x' / y)))"
| "py_truediv (VFloat x) (VInt y) =
     (case int_to_float y of
        Inl e \<Rightarrow> Inl e
      | Inr y' \<Rightarrow> if y' = 0 then Inl ZeroDivisionError else Inr (VFloat (x / y')))"
| "py_truediv (VFloat x) (VFloat y) =
     (if y = 0 then Inl ZeroDivisionError else Inr (VFloat (x / y)))"
| "py_truediv _ _ = Inl TypeError"

text \<open>\<open>a + b\<close>: two \<open>str\<close>s are concatenated.\<close>

fun py_add :: "pyval \<Rightarrow> pyval \<Rightarrow> py_error + pyval" where
  "py_add (VInt x) (VInt y) = Inr (VInt (x + y))"
| "py_add (VInt x) (VFloat y) =
     (case int_to_float x of Inl e \<Rightarrow> Inl e | Inr x' \<Rightarrow> Inr (VFloat (x' + y)))"
| "py_add (VFloat x) (VInt y) =
     (case int_to_float y of Inl e \<Rightarrow> Inl e | Inr y' \<Rightarrow> Inr (VFloat (x + y')))"
| "py_add (VFloat x) (VFloat y) = Inr (VFloat (x + y))"
| "py_add (VStr x) (VStr y) = Inr (VStr (x @ y))"
| "py_add _ _ = Inl TypeError"

text \<open>\<open>1.0 - v\<close>.\<close>

fun py_one_minus :: "pyval \<Rightarrow> py_error + pyval" where
  "py_one_minus (VInt i) =
     (case int_to_float i of Inl e \<Rightarrow> Inl e | Inr x \<Rightarrow> Inr (VFloat (1 - x)))"
| "py_one_minus (VFloat x) = Inr (VFloat (1 - x))"
| "py_one_minus (VStr s) = Inl TypeError"

text \<open>The branch-accuracy block.\<close>

definition branch_step :: "metrics \<Rightarrow> py_error + metrics" where
  "branch_step m =
     (case (m ''branch_condPredicted'', m ''branch_condIncorrect'') of
        (Some p, Some c) \<Rightarrow>
          (case py_gt_zero p of
             Inl e \<Rightarrow> Inl e
           | Inr True \<Rightarrow>
               (case py_truediv c p of
                  Inl e \<Rightarrow> Inl e
                | Inr q \<Rightarrow>
                    (case py_one_minus q of
                       Inl e \<Rightarrow> Inl e
                     | Inr a \<Rightarrow> Inr (m(''branch_accuracy'' \<mapsto> a))))
           | Inr False \<Rightarrow> Inr (m(''branch_accuracy'' \<mapsto> VFloat 0)))
      | _ \<Rightarrow> Inr m)"

text \<open>One turn of the loop over the cache tiers.\<close>

definition cache_step :: "string \<Rightarrow> metrics \<Rightarrow> py_error + metrics" where
  "cache_step cache m =
     (case (m (cache @ ''_overall_hits''), m (cache @ ''_overall_misses'')) of
        (Some h, Some ms) \<Rightarrow>
          (case py_add h ms of
             Inl e \<Rightarrow> Inl e
           | Inr total_accesses \<Rightarrow>
               (case py_gt_zero total_accesses of
                  Inl e \<Rightarrow> Inl e
                | Inr True \<Rightarrow>
                    (case py_truediv h total_accesses of
                       Inl e \<Rightarrow> Inl e
                     | Inr q \<Rightarrow> Inr (m(cache @ ''_hit_rate'' \<mapsto> q)))
                | Inr False \<Rightarrow> Inr (m(cache @ ''_hit_rate'' \<mapsto> VFloat 0))))
      | _ \<Rightarrow> Inr m)"

fun cache_steps :: "string list \<Rightarrow> metrics \<Rightarrow> py_error + metrics" where
  "cache_steps [] m = Inr m"
| "cache_steps (cache # caches) m =
     (case cache_step cache m of Inl e \<Rightarrow> Inl e | Inr m' \<Rightarrow> cache_steps caches m')"

definition caches :: "string list" where
  "caches = [''icache'', ''dcache'', ''l2cache'']"

text \<open>
  Everything \<open>parse_stats_file\<close> does once the text is read: the extraction loop, then the
  derived metrics. An exception leaving the function is the \<open>Inl\<close> result.
\<close>

definition parse_stats_content :: "string \<Rightarrow> py_error + metrics" where
  "parse_stats_content content =
     (case branch_step (extract_metrics content) of
        Inl e \<Rightarrow> Inl e
      | Inr m \<Rightarrow> cache_steps caches m)"

text \<open>What a caller reads under a key of the returned report.\<close>

definition metric_of :: "py_error + metrics \<Rightarrow> string \<Rightarrow> py_error + pyval option" where
  "metric_of res k = (case res of Inl e \<Rightarrow> Inl e | Inr m \<Rightarrow> Inr (m k))"

section \<open>Files, directories and what the program does to them\<close>

text \<open>
  The file system maps a path to what is there: a regular file with its text, or a
  directory with the names of its entries. A run is observed through its events: the
  lines it prints, the files it opens and the directories it lists.
\<close>

datatype fsnode = RegularFile string | Directory "string list"

type_synonym filesystem = "string \<rightharpoonup> fsnode"

datatype event = Printed string | Opened string | Listed string

text \<open>
  \<open>base / name\<close> of pathlib, for a base in the normal form pathlib prints (no trailing
  slash, no \<open>.\<close> component): a base that is not in that form is normalised by pathlib and
  is not covered here.
\<close>

definition path_join :: "string \<Rightarrow> string \<Rightarrow> string" where
  "path_join base name = base @ ''/'' @ name"

text \<open>
  \<open>parse_stats_file\<close>: a path that is not there is reported and gives the empty report;
  \<open>open\<close> on a directory raises.
\<close>

definition parse_stats_file :: "filesystem \<Rightarrow> string \<Rightarrow> event list \<times> (py_error + metrics)" where
  "parse_stats_file fs stats_path =
     (case fs stats_path of
        None \<Rightarrow> ([Printed (''Warning: Stats file not found: '' @ stats_path)], Inr Map.empty)
      | Some (Directory names) \<Rightarrow> ([Opened stats_path], Inl IsADirectoryError)
      | Some (RegularFile content) \<Rightarrow> ([Opened stats_path], parse_stats_content content))"

record workload_data =
  stats :: metrics
  config_path :: "string option"

type_synonym experiment_data = "(string \<times> workload_data) list"

type_synonym experiments = "(string \<times> experiment_data) list"

text \<open>
  The loop of \<open>load_experiment_data\<close> over the entries of an experiment directory, with
  the dictionary \<open>experiment_data\<close> built so far.
\<close>

fun load_workloads ::
  "filesystem \<Rightarrow> string \<Rightarrow> string list \<Rightarrow> experiment_data \<Rightarrow>
     event list \<times> (py_error + experiment_data)" where
  "load_workloads fs exp_path [] acc = ([], Inr acc)"
| "load_workloads fs exp_path (n # ns) acc =
     (let workload_dir = path_join exp_path n in
      case fs workload_dir of
        Some (Directory entries) \<Rightarrow>
          (case parse_stats_file fs (path_join workload_dir ''stats.txt'') of
             (ev, Inl e) \<Rightarrow> (ev, Inl e)
           | (ev, Inr st) \<Rightarrow>
               (let config_file = path_join workload_dir ''config.ini'';
                    entry = \<lparr>stats = st,
                             config_path = (if fs config_file = None then None
                                            else Some config_file)\<rparr>
                in case load_workloads fs exp_path ns (AList.update n entry acc) of
                     (ev', r) \<Rightarrow> (ev @ ev', r)))
      | _ \<Rightarrow> load_workloads fs exp_path ns acc)"

definition load_experiment_data ::
  "filesystem \<Rightarrow> string \<Rightarrow> event list \<times> (py_error + experiment_data)" where
  "load_experiment_data fs exp_path =
     (case fs exp_path of
        None \<Rightarrow> ([Listed exp_path], Inl FileNotFoundError)
      | Some (RegularFile content) \<Rightarrow> ([Listed exp_path], Inl NotADirectoryError)
      | Some (Directory names) \<Rightarrow>
          (case load_workloads fs exp_path names [] of
             (ev, r) \<Rightarrow> (Listed exp_path # ev, r)))"

definition experiment_dirs :: "string list" where
  "experiment_dirs = [''basic_pipeline'', ''branch_prediction'', ''superscalar'', ''smt'']"

text \<open>The loop of \<open>load_experiment_results\<close>, with \<open>self.experiments\<close> built so far.\<close>

fun load_experiments ::
  "filesystem \<Rightarrow> string \<Rightarrow> string list \<Rightarrow> experiments \<Rightarrow>
     event list \<times> (py_error + experiments)" where
  "load_experiments fs base [] acc = ([], Inr acc)"
| "load_experiments fs base (d # ds) acc =
     (let exp_path = path_join base d in
      if fs exp_path = None then load_experiments fs base ds acc
      else
        (case load_experiment_data fs exp_path of
           (ev, Inl e) \<Rightarrow> (ev, Inl e)
         | (ev, Inr dat) \<Rightarrow>
             (case load_experiments fs base ds (AList.update d dat acc) of
                (ev', r) \<Rightarrow> (ev @ ev', r))))"

definition load_experiment_results ::
  "filesystem \<Rightarrow> string \<Rightarrow> event list \<times> (py_error + experiments)" where
  "load_experiment_results fs base = load_experiments fs base experiment_dirs []"

text \<open>
  \<open>generate_summary_report\<close> prints its banner and loads the experiments. What follows
  (the table, the plot, the analyses and the insights) runs inside pandas and matplotlib;
  it is the parameter \<open>analyse\<close>, which gets the loaded experiments and may raise.
\<close>

definition banner :: "event list" where
  "banner =
     [Printed (''\<newline>'' @ replicate 60 CHR ''=''),
      Printed ''           GEM5 ILP EXPERIMENT SUMMARY REPORT'',
      Printed (replicate 60 CHR ''='')]"

definition generate_summary_report ::
  "filesystem \<Rightarrow> (experiments \<Rightarrow> event list \<times> (py_error + unit)) \<Rightarrow> string \<Rightarrow>
     event list \<times> (py_error + unit)" where
  "generate_summary_report fs analyse base =
     (case load_experiment_results fs base of
        (ev, Inl e) \<Rightarrow> (banner @ ev, Inl e)
      | (ev, Inr exps) \<Rightarrow>
          (case analyse exps of (ev', r) \<Rightarrow> (banner @ ev @ ev', r)))"

text \<open>\<open>main\<close>, from the parsed argument \<open>results_dir\<close> on: the events and the exit code.\<close>

definition main ::
  "filesystem \<Rightarrow> (experiments \<Rightarrow> event list \<times> (py_error + unit)) \<Rightarrow> string \<Rightarrow>
     event list \<times> (py_error + int)" where
  "main fs analyse results_dir =
     (if fs results_dir = None
      then ([Printed (''Error: Results directory not found: '' @ results_dir)], Inr 1)
      else
        (case generate_summary_report fs analyse results_dir of
           (ev, Inl e) \<Rightarrow> (ev, Inl e)
         | (ev, Inr u) \<Rightarrow> (ev, Inr 0)))"

section \<open>The comparison table\<close>

text \<open>A row of the table; the column \<open>experiment\<close> is the field \<open>experiment_name\<close>.\<close>

record row =
  experiment_name :: string
  workload :: string
  ipc :: pyval
  sim_seconds :: pyval
  committedInsts :: pyval
  branch_accuracy :: pyval
  dcache_hit_rate :: pyval
  l2cache_hit_rate :: pyval

text \<open>\<open>stats.get(key, default)\<close>: a lookup, the dictionary is not changed.\<close>

definition dict_get :: "metrics \<Rightarrow> string \<Rightarrow> pyval \<Rightarrow> pyval" where
  "dict_get m k d = (case m k of None \<Rightarrow> d | Some v \<Rightarrow> v)"

definition build_row :: "string \<Rightarrow> string \<Rightarrow> metrics \<Rightarrow> row" where
  "build_row exp_name wl st =
     \<lparr>experiment_name = exp_name,
      workload = wl,
      ipc = dict_get st ''ipc'' (VInt 0),
      sim_seconds = dict_get st ''sim_seconds'' (VInt 0),
      committedInsts = dict_get st ''committedInsts'' (VInt 0),
      branch_accuracy = dict_get st ''branch_accuracy'' (VInt 0),
      dcache_hit_rate = dict_get st ''dcache_hit_rate'' (VInt 0),
      l2cache_hit_rate = dict_get st ''l2cache_hit_rate'' (VInt 0)\<rparr>"

text \<open>The nested loop of \<open>generate_performance_comparison\<close> that fills \<open>comparison_data\<close>.\<close>

definition comparison_data :: "experiments \<Rightarrow> row list" where
  "comparison_data exps =
     concat (map (\<lambda>(exp_name, exp_data).
                    map (\<lambda>(wl, data). build_row exp_name wl (stats data)) exp_data) exps)"

text \<open>
  The same loop as a step on the analyzer's state: the rows, and \<open>self.experiments\<close> as the
  loop leaves it.
\<close>

definition generate_performance_comparison :: "experiments \<Rightarrow> row list \<times> experiments" where
  "generate_performance_comparison exps = (comparison_data exps, exps)"

section \<open>Averages by label\<close>

text \<open>
  \<open>df.groupby(label)['ipc'].mean()\<close> of pandas on a numeric column: one entry per label, in
  sorted order, with the arithmetic mean of the values of the rows carrying the label. A
  column holding a retained token is not numeric and is outside this model (\<open>None\<close>).
\<close>

definition mean :: "rat list \<Rightarrow> rat" where
  "mean xs = sum_list xs / of_nat (length xs)"

definition ipc_by :: "(row \<Rightarrow> string) \<Rightarrow> row list \<Rightarrow> (string \<times> rat) list option" where
  "ipc_by label df =
     (if list_all (\<lambda>r. num_of (ipc r) \<noteq> None) df
      then Some (List.map_filter (\<lambda>r. map_option (Pair (label r)) (num_of (ipc r))) df)
      else None)"

definition groupby_mean :: "(string \<times> rat) list \<Rightarrow> (string \<times> rat) list" where
  "groupby_mean kvs =
     map (\<lambda>l. (l, mean (map snd (filter (\<lambda>kv. fst kv = l) kvs))))
         (sort (remdups (map fst kvs)))"

definition exp_avg :: "row list \<Rightarrow> (string \<times> rat) list option" where
  "exp_avg df = map_option groupby_mean (ipc_by experiment_name df)"

definition workload_avg :: "row list \<Rightarrow> (string \<times> rat) list option" where
  "workload_avg df = map_option groupby_mean (ipc_by workload df)"

section \<open>Properties of the matcher\<close>

lemma strip_prefix_iff: "strip_prefix lit s = Some r \<longleftrightarrow> s = lit @ r"
  by (induction lit s rule: strip_prefix.induct) auto

lemma space_not_in_class: "is_space c \<Longrightarrow> \<not> in_class cls c"
  by (cases cls) (auto simp: is_space_def is_digit_def)

lemma match_here_token:
  assumes "match_here p s = Some tok"
  shows "tok \<noteq> [] \<and> list_all (in_class (snd p)) tok"
  using assms
  by (auto simp: match_here_def Let_def list_all_iff split: option.splits if_splits
           dest: set_takeWhileD)

lemma re_search_token:
  "re_search p s = Some tok \<Longrightarrow> tok \<noteq> [] \<and> list_all (in_class (snd p)) tok"
proof (induction s)
  case Nil
  then show ?case using match_here_token [of p "[]" tok] by simp
next
  case (Cons c cs)
  then show ?case
    using match_here_token [of p "c # cs" tok] by (auto split: option.splits)
qed

lemma re_search_first:
  "i \<le> length s \<Longrightarrow> match_here p (drop i s) = Some tok \<Longrightarrow>
   \<forall>j<i. match_here p (drop j s) = None \<Longrightarrow> re_search p s = Some tok"
proof (induction s arbitrary: i)
  case Nil
  then show ?case by simp
next
  case (Cons c cs)
  show ?case
  proof (cases i)
    case 0
    with Cons.prems show ?thesis by simp
  next
    case (Suc k)
    have "match_here p (drop 0 (c # cs)) = None"
      using Cons.prems(3) Suc by blast
    then have here: "match_here p (c # cs) = None" by simp
    have later: "\<forall>j<k. match_here p (drop j cs) = None"
    proof (intro allI impI)
      fix j assume "j < k"
      then have "match_here p (drop (Suc j) (c # cs)) = None"
        using Cons.prems(3) Suc by blast
      then show "match_here p (drop j cs) = None" by simp
    qed
    have "re_search p cs = Some tok"
      using Cons.IH [of k] Cons.prems(1,2) Suc later by simp
    with here show ?thesis by simp
  qed
qed

lemma re_search_None:
  "re_search p s = None \<longleftrightarrow> (\<forall>j\<le>length s. match_here p (drop j s) = None)"
proof (induction s)
  case Nil
  then show ?case by simp
next
  case (Cons c cs)
  show ?case
  proof
    assume a: "re_search p (c # cs) = None"
    then have h: "match_here p (c # cs) = None" and t: "re_search p cs = None"
      by (auto split: option.splits)
    show "\<forall>j\<le>length (c # cs). match_here p (drop j (c # cs)) = None"
    proof (intro allI impI)
      fix j assume "j \<le> length (c # cs)"
      then show "match_here p (drop j (c # cs)) = None"
        using h t Cons.IH by (cases j) auto
    qed
  next
    assume a: "\<forall>j\<le>length (c # cs). match_here p (drop j (c # cs)) = None"
    then have "match_here p (drop 0 (c # cs)) = None" by blast
    then have h: "match_here p (c # cs) = None" by simp
    have "\<forall>j\<le>length cs. match_here p (drop j cs) = None"
    proof (intro allI impI)
      fix j assume "j \<le> length cs"
      then have "match_here p (drop (Suc j) (c # cs)) = None" using a by auto
      then show "match_here p (drop j cs) = None" by simp
    qed
    then have "re_search p cs = None" using Cons.IH by simp
    with h show "re_search p (c # cs) = None" by simp
  qed
qed

lemma match_here_decomp:
  assumes "ws \<noteq> []" "list_all is_space ws" "tok \<noteq> []" "list_all (in_class cls) tok"
    and "rest = [] \<or> \<not> in_class cls (hd rest)"
  shows "match_here (lit, cls) (lit @ ws @ tok @ rest) = Some tok"
proof -
  have sp: "strip_prefix lit (lit @ ws @ tok @ rest) = Some (ws @ tok @ rest)"
    by (simp add: strip_prefix_iff)
  have nsp: "\<not> is_space (hd tok)"
    using assms(3,4) space_not_in_class [of "hd tok" cls] by (cases tok) auto
  have tr: "takeWhile is_space (tok @ rest) = []"
    using assms(3) nsp by (cases tok) auto
  have dr: "dropWhile is_space (tok @ rest) = tok @ rest"
    using assms(3) nsp by (cases tok) auto
  have tw: "takeWhile is_space (ws @ tok @ rest) = ws"
    using assms(2) tr by (simp add: list_all_iff)
  have dw: "dropWhile is_space (ws @ tok @ rest) = tok @ rest"
    using assms(2) dr by (simp add: dropWhile_append2 list_all_iff)
  have rr: "takeWhile (in_class cls) rest = []"
    using assms(5) by (cases rest) auto
  have tt: "takeWhile (in_class cls) (tok @ rest) = tok"
    using assms(4) rr by (simp add: list_all_iff)
  show ?thesis
    using sp tw dw tt assms(1,3) by (simp add: match_here_def)
qed

lemma digit_facts:
  "is_digit c \<Longrightarrow> c \<noteq> CHR ''.'' \<and> \<not> is_e c \<and> c \<noteq> CHR ''-'' \<and> c \<noteq> CHR ''+''"
  by (auto simp: is_digit_def is_e_def)

lemma digits_convert:
  assumes "ds \<noteq> []" "list_all is_digit ds"
  shows "convert ds =
           (if length ds \<le> max_str_digits then VInt (int (nat_of_digits ds)) else VStr ds)"
proof -
  obtain c cs where ds: "ds = c # cs" using assms(1) by (cases ds) auto
  have "is_digit c" using assms(2) ds by simp
  then have sg: "split_sign ds = (1, ds)" using digit_facts [of c] ds by simp
  have nodot: "CHR ''.'' \<notin> set ds"
    using assms(2) digit_facts by (auto simp: list_all_iff)
  have noe: "\<not> list_ex is_e ds"
    using assms(2) digit_facts by (auto simp: list_all_iff list_ex_iff)
  show ?thesis
    using sg nodot noe assms by (simp add: convert_def py_int_def all_digits_def)
qed

lemma fold_extract_step:
  "distinct (map fst ps) \<Longrightarrow>
   fold (extract_step content) ps m k =
     (case map_of ps k of
        None \<Rightarrow> m k
      | Some p \<Rightarrow> (case re_search p content of None \<Rightarrow> m k | Some v \<Rightarrow> Some (convert v)))"
proof (induction ps arbitrary: m)
  case Nil
  then show ?case by simp
next
  case (Cons a ps)
  obtain n q where a: "a = (n, q)" by (cases a)
  have d: "distinct (map fst ps)" and nin: "n \<notin> fst ` set ps"
    using Cons.prems a by auto
  have none: "k = n \<Longrightarrow> map_of ps k = None"
    using nin by (simp add: map_of_eq_None_iff)
  show ?case
    using Cons.IH [OF d, of "extract_step content a m"] none
    by (auto simp: a extract_step_def split: option.splits)
qed

lemma distinct_patterns: "distinct (map fst patterns)"
  by (simp add: patterns_def)

lemma extract_metrics_lookup:
  "extract_metrics content k =
     (case map_of patterns k of
        None \<Rightarrow> None
      | Some p \<Rightarrow> map_option convert (re_search p content))"
  unfolding extract_metrics_def
  by (simp add: fold_extract_step [OF distinct_patterns] split: option.splits)

section \<open>What the derived block does to an extracted report\<close>

text \<open>
  A counter is missing, a natural number, or a retained run of digits.
\<close>

lemma extract_counter:
  assumes "map_of patterns k = Some (lit, Digits)"
  shows "extract_metrics content k = None \<or>
         (\<exists>n. extract_metrics content k = Some (VInt (int n))) \<or>
         (\<exists>s. extract_metrics content k = Some (VStr s))"
proof (cases "re_search (lit, Digits) content")
  case None
  then show ?thesis using assms by (simp add: extract_metrics_lookup)
next
  case (Some tok)
  then have "tok \<noteq> [] \<and> list_all is_digit tok"
    using re_search_token [of "(lit, Digits)" content tok] by (simp add: list_all_iff)
  then have "convert tok =
      (if length tok \<le> max_str_digits then VInt (int (nat_of_digits tok)) else VStr tok)"
    by (simp add: digits_convert)
  then show ?thesis using assms Some by (simp add: extract_metrics_lookup)
qed

lemma extract_not_in_catalog:
  "map_of patterns k = None \<Longrightarrow> extract_metrics content k = None"
  by (simp add: extract_metrics_lookup)

lemma counter_patterns:
  "map_of patterns ''branch_condPredicted'' = Some (''system.cpu.branchPred.condPredicted'', Digits)"
  "map_of patterns ''branch_condIncorrect'' = Some (''system.cpu.branchPred.condIncorrect'', Digits)"
  "map_of patterns ''icache_overall_hits'' = Some (''system.cpu.icache.overall_hits::total'', Digits)"
  "map_of patterns ''icache_overall_misses'' = Some (''system.cpu.icache.overall_misses::total'', Digits)"
  "map_of patterns ''dcache_overall_hits'' = Some (''system.cpu.dcache.overall_hits::total'', Digits)"
  "map_of patterns ''dcache_overall_misses'' = Some (''system.cpu.dcache.overall_misses::total'', Digits)"
  "map_of patterns ''l2cache_overall_hits'' = Some (''system.l2cache.overall_hits::total'', Digits)"
  "map_of patterns ''l2cache_overall_misses'' = Some (''system.l2cache.overall_misses::total'', Digits)"
  by (simp_all add: patterns_def)

lemma derived_not_in_catalog:
  "map_of patterns ''branch_accuracy'' = None"
  "map_of patterns ''icache_hit_rate'' = None"
  "map_of patterns ''dcache_hit_rate'' = None"
  "map_of patterns ''l2cache_hit_rate'' = None"
  by (simp_all add: patterns_def)

lemma branch_keep:
  "branch_step m = Inr m' \<Longrightarrow> k \<noteq> ''branch_accuracy'' \<Longrightarrow> m' k = m k"
  by (auto simp: branch_step_def split: option.splits sum.splits bool.splits)

lemma branch_missing:
  "branch_step m = Inr m' \<Longrightarrow>
   m ''branch_condPredicted'' = None \<or> m ''branch_condIncorrect'' = None \<Longrightarrow> m' = m"
  by (auto simp: branch_step_def split: option.splits)

lemma branch_typed:
  assumes "branch_step m = Inr m'"
    and "m ''branch_condPredicted'' = Some vp" and "m ''branch_condIncorrect'' = Some vc"
    and "(\<exists>n. vp = VInt (int n)) \<or> (\<exists>s. vp = VStr s)"
    and "(\<exists>n. vc = VInt (int n)) \<or> (\<exists>s. vc = VStr s)"
  shows "\<exists>p. vp = VInt p \<and> 0 \<le> p \<and>
           (0 < p \<longrightarrow> (\<exists>c. vc = VInt c \<and>
              m' ''branch_accuracy'' = Some (VFloat (1 - of_int c / of_int p)))) \<and>
           (p = 0 \<longrightarrow> m' ''branch_accuracy'' = Some (VFloat 0))"
  using assms
  by (auto simp: branch_step_def py_gt_zero_def split: if_splits sum.splits bool.splits)

lemma cache_keep:
  "cache_step cache m = Inr m' \<Longrightarrow> k \<noteq> cache @ ''_hit_rate'' \<Longrightarrow> m' k = m k"
  by (auto simp: cache_step_def split: option.splits sum.splits bool.splits)

lemma cache_missing:
  "cache_step cache m = Inr m' \<Longrightarrow>
   m (cache @ ''_overall_hits'') = None \<or> m (cache @ ''_overall_misses'') = None \<Longrightarrow>
   m' = m"
  by (auto simp: cache_step_def split: option.splits)

lemma cache_typed:
  assumes "cache_step cache m = Inr m'"
    and "m (cache @ ''_overall_hits'') = Some vh" and "m (cache @ ''_overall_misses'') = Some vm"
    and "(\<exists>n. vh = VInt (int n)) \<or> (\<exists>s. vh = VStr s)"
    and "(\<exists>n. vm = VInt (int n)) \<or> (\<exists>s. vm = VStr s)"
  shows "\<exists>h ms. vh = VInt h \<and> vm = VInt ms \<and>
           m' (cache @ ''_hit_rate'') =
             Some (VFloat (if 0 < h + ms then of_int h / of_int (h + ms) else 0))"
proof -
  have "\<exists>h ms. vh = VInt (int h) \<and> vm = VInt (int ms)"
    using assms
    by (auto simp: cache_step_def py_gt_zero_def split: sum.splits bool.splits if_splits)
  then obtain h ms where v: "vh = VInt (int h)" "vm = VInt (int ms)" by blast
  have "m' (cache @ ''_hit_rate'') =
      Some (VFloat (if 0 < int h + int ms then of_int (int h) / of_int (int h + int ms) else 0))"
    using assms(1,2,3) v
    by (auto simp: cache_step_def py_gt_zero_def split: if_splits)
  then show ?thesis using v by blast
qed

text \<open>When the derived block returns.\<close>

text \<open>A quotient of two counters that no \<open>float\<close> holds: line 85 raises.\<close>

lemma huge_quotient_raises:
  "py_truediv (VInt (10 ^ 400)) (VInt 1) = Inl OverflowError"
  "branch_step [''branch_condPredicted'' \<mapsto> VInt 1,
                ''branch_condIncorrect'' \<mapsto> VInt (10 ^ 400)] = Inl OverflowError"
  by (simp_all add: float_overflows_def branch_step_def py_gt_zero_def)

lemma small_quotient:
  assumes "0 \<le> h" "0 \<le> ms" "0 < h + ms"
  shows "\<not> float_overflows (of_int h / of_int (h + ms))"
proof -
  define q :: rat where "q = of_int h / of_int (h + ms)"
  have "q \<le> 1" and "0 \<le> q" using assms by (simp_all add: q_def)
  then have "\<bar>q\<bar> \<le> 1" by (simp add: abs_le_iff)
  moreover have "(1 :: rat) < 2 ^ 1024 - 2 ^ 970" by simp
  ultimately have "\<not> 2 ^ 1024 - 2 ^ 970 \<le> \<bar>q\<bar>" by linarith
  then show ?thesis by (simp add: float_overflows_def q_def)
qed

lemma branch_returns:
  assumes "m ''branch_condPredicted'' = None \<or> m ''branch_condIncorrect'' = None \<or>
     (\<exists>p c. m ''branch_condPredicted'' = Some (VInt p) \<and>
            m ''branch_condIncorrect'' = Some (VInt c) \<and>
            (0 < p \<longrightarrow> \<not> float_overflows (of_int c / of_int p))) \<or>
     (\<exists>p v. m ''branch_condPredicted'' = Some (VInt p) \<and> \<not> 0 < p \<and>
            m ''branch_condIncorrect'' = Some v)"
  shows "\<exists>m'. branch_step m = Inr m'"
  using assms
  by (elim disjE exE conjE)
     (auto simp: branch_step_def py_gt_zero_def split: option.splits bool.splits)

lemma cache_returns:
  assumes "m (cache @ ''_overall_hits'') = None \<or> m (cache @ ''_overall_misses'') = None \<or>
     (\<exists>h ms. m (cache @ ''_overall_hits'') = Some (VInt (int h)) \<and>
             m (cache @ ''_overall_misses'') = Some (VInt (int ms)))"
  shows "\<exists>m'. cache_step cache m = Inr m'"
  using assms
proof (elim disjE exE conjE)
  assume "m (cache @ ''_overall_hits'') = None"
  then show ?thesis by (simp add: cache_step_def)
next
  assume "m (cache @ ''_overall_misses'') = None"
  then show ?thesis by (simp add: cache_step_def split: option.splits)
next
  fix h ms
  assume 2: "m (cache @ ''_overall_hits'') = Some (VInt (int h))"
    "m (cache @ ''_overall_misses'') = Some (VInt (int ms))"
  show ?thesis
  proof (cases "0 < int h + int ms")
    case True
    have "\<not> float_overflows (of_int (int h) / of_int (int h + int ms))"
      using True by (intro small_quotient) simp_all
    then show ?thesis using 2 True by (simp add: cache_step_def py_gt_zero_def)
  next
    case False
    then show ?thesis using 2 by (simp add: cache_step_def py_gt_zero_def)
  qed
qed


section \<open>Reading the returned report\<close>

lemma cache_keys:
  assumes "cache \<in> set caches"
  shows "cache @ ''_overall_hits'' \<noteq> ''branch_accuracy''"
    "cache @ ''_overall_hits'' \<noteq> ''icache_hit_rate''"
    "cache @ ''_overall_hits'' \<noteq> ''dcache_hit_rate''"
    "cache @ ''_overall_hits'' \<noteq> ''l2cache_hit_rate''"
    "cache @ ''_overall_misses'' \<noteq> ''branch_accuracy''"
    "cache @ ''_overall_misses'' \<noteq> ''icache_hit_rate''"
    "cache @ ''_overall_misses'' \<noteq> ''dcache_hit_rate''"
    "cache @ ''_overall_misses'' \<noteq> ''l2cache_hit_rate''"
    "\<exists>lit. map_of patterns (cache @ ''_overall_hits'') = Some (lit, Digits)"
    "\<exists>lit. map_of patterns (cache @ ''_overall_misses'') = Some (lit, Digits)"
proof -
  consider "cache = ''icache''" | "cache = ''dcache''" | "cache = ''l2cache''"
    using assms by (auto simp: caches_def)
  then have "(cache @ ''_overall_hits'' \<noteq> ''branch_accuracy'' \<and>
    cache @ ''_overall_hits'' \<noteq> ''icache_hit_rate'' \<and>
    cache @ ''_overall_hits'' \<noteq> ''dcache_hit_rate'' \<and>
    cache @ ''_overall_hits'' \<noteq> ''l2cache_hit_rate'' \<and>
    cache @ ''_overall_misses'' \<noteq> ''branch_accuracy'' \<and>
    cache @ ''_overall_misses'' \<noteq> ''icache_hit_rate'' \<and>
    cache @ ''_overall_misses'' \<noteq> ''dcache_hit_rate'' \<and>
    cache @ ''_overall_misses'' \<noteq> ''l2cache_hit_rate'') \<and>
    (\<exists>lit. map_of patterns (cache @ ''_overall_hits'') = Some (lit, Digits)) \<and>
    (\<exists>lit. map_of patterns (cache @ ''_overall_misses'') = Some (lit, Digits))"
  proof cases
    case 1
    then show ?thesis using counter_patterns(3,4) by simp
  next
    case 2
    then show ?thesis using counter_patterns(5,6) by simp
  next
    case 3
    then show ?thesis using counter_patterns(7,8) by simp
  qed
  then show "cache @ ''_overall_hits'' \<noteq> ''branch_accuracy''"
    "cache @ ''_overall_hits'' \<noteq> ''icache_hit_rate''"
    "cache @ ''_overall_hits'' \<noteq> ''dcache_hit_rate''"
    "cache @ ''_overall_hits'' \<noteq> ''l2cache_hit_rate''"
    "cache @ ''_overall_misses'' \<noteq> ''branch_accuracy''"
    "cache @ ''_overall_misses'' \<noteq> ''icache_hit_rate''"
    "cache @ ''_overall_misses'' \<noteq> ''dcache_hit_rate''"
    "cache @ ''_overall_misses'' \<noteq> ''l2cache_hit_rate''"
    "\<exists>lit. map_of patterns (cache @ ''_overall_hits'') = Some (lit, Digits)"
    "\<exists>lit. map_of patterns (cache @ ''_overall_misses'') = Some (lit, Digits)"
    by blast+
qed

text \<open>The keys the derived block writes; every other key keeps its extracted value.\<close>

lemma parse_chain:
  assumes "parse_stats_content content = Inr r"
  obtains m1 m2 m3 where "branch_step (extract_metrics content) = Inr m1"
    and "cache_step ''icache'' m1 = Inr m2"
    and "cache_step ''dcache'' m2 = Inr m3"
    and "cache_step ''l2cache'' m3 = Inr r"
  using assms by (auto simp: parse_stats_content_def caches_def split: sum.splits)

lemma report_primary:
  assumes "parse_stats_content content = Inr r"
    and "k \<noteq> ''branch_accuracy''" "k \<noteq> ''icache_hit_rate''"
    "k \<noteq> ''dcache_hit_rate''" "k \<noteq> ''l2cache_hit_rate''"
  shows "r k = extract_metrics content k"
proof -
  from assms(1) obtain m1 m2 m3 where
    c: "branch_step (extract_metrics content) = Inr m1" "cache_step ''icache'' m1 = Inr m2"
      "cache_step ''dcache'' m2 = Inr m3" "cache_step ''l2cache'' m3 = Inr r"
    by (rule parse_chain)
  have "m1 k = extract_metrics content k" using branch_keep [OF c(1) assms(2)] .
  moreover have "m2 k = m1 k" using cache_keep [OF c(2), of k] assms(3) by simp
  moreover have "m3 k = m2 k" using cache_keep [OF c(3), of k] assms(4) by simp
  moreover have "r k = m3 k" using cache_keep [OF c(4), of k] assms(5) by simp
  ultimately show ?thesis by simp
qed

lemma report_accuracy_is_branch_step:
  assumes "parse_stats_content content = Inr r"
  obtains m1 where "branch_step (extract_metrics content) = Inr m1"
    and "r ''branch_accuracy'' = m1 ''branch_accuracy''"
proof -
  from assms(1) obtain m1 m2 m3 where
    c: "branch_step (extract_metrics content) = Inr m1" "cache_step ''icache'' m1 = Inr m2"
      "cache_step ''dcache'' m2 = Inr m3" "cache_step ''l2cache'' m3 = Inr r"
    by (rule parse_chain)
  have "m2 ''branch_accuracy'' = m1 ''branch_accuracy''"
    using cache_keep [OF c(2), of "''branch_accuracy''"] by simp
  moreover have "m3 ''branch_accuracy'' = m2 ''branch_accuracy''"
    using cache_keep [OF c(3), of "''branch_accuracy''"] by simp
  moreover have "r ''branch_accuracy'' = m3 ''branch_accuracy''"
    using cache_keep [OF c(4), of "''branch_accuracy''"] by simp
  ultimately have "r ''branch_accuracy'' = m1 ''branch_accuracy''" by simp
  with c(1) show ?thesis by (rule that)
qed

lemma report_accuracy:
  assumes ret: "parse_stats_content content = Inr r"
    and a: "r ''branch_condPredicted'' = Some vp"
    and b: "r ''branch_condIncorrect'' = Some vc"
  shows "\<exists>p. vp = VInt p \<and> 0 \<le> p \<and>
           (0 < p \<longrightarrow> (\<exists>c. vc = VInt c \<and>
              r ''branch_accuracy'' = Some (VFloat (1 - of_int c / of_int p)))) \<and>
           (p = 0 \<longrightarrow> r ''branch_accuracy'' = Some (VFloat 0))"
proof -
  from ret obtain m1 where m1: "branch_step (extract_metrics content) = Inr m1"
    and acc: "r ''branch_accuracy'' = m1 ''branch_accuracy''"
    by (rule report_accuracy_is_branch_step)
  have ep: "extract_metrics content ''branch_condPredicted'' = Some vp"
    using report_primary [OF ret, of "''branch_condPredicted''"] a by simp
  have ec: "extract_metrics content ''branch_condIncorrect'' = Some vc"
    using report_primary [OF ret, of "''branch_condIncorrect''"] b by simp
  have tp: "(\<exists>n. vp = VInt (int n)) \<or> (\<exists>s. vp = VStr s)"
    using extract_counter [OF counter_patterns(1), of content] ep by auto
  have tc: "(\<exists>n. vc = VInt (int n)) \<or> (\<exists>s. vc = VStr s)"
    using extract_counter [OF counter_patterns(2), of content] ec by auto
  show ?thesis
    using branch_typed [OF m1 ep ec tp tc] unfolding acc .
qed

lemma report_accuracy_missing:
  assumes ret: "parse_stats_content content = Inr r"
    and a: "r ''branch_condPredicted'' = None \<or> r ''branch_condIncorrect'' = None"
  shows "r ''branch_accuracy'' = None"
proof -
  from ret obtain m1 where m1: "branch_step (extract_metrics content) = Inr m1"
    and acc: "r ''branch_accuracy'' = m1 ''branch_accuracy''"
    by (rule report_accuracy_is_branch_step)
  have "extract_metrics content ''branch_condPredicted'' = None \<or>
        extract_metrics content ''branch_condIncorrect'' = None"
    using report_primary [OF ret, of "''branch_condPredicted''"]
      report_primary [OF ret, of "''branch_condIncorrect''"] a by simp
  then have "m1 = extract_metrics content" by (rule branch_missing [OF m1])
  then show ?thesis
    using acc extract_not_in_catalog [OF derived_not_in_catalog(1), of content] by simp
qed

lemma report_cache_step:
  assumes ret: "parse_stats_content content = Inr r" and ca: "cache \<in> set caches"
  obtains m m' where "cache_step cache m = Inr m'"
    and "m (cache @ ''_overall_hits'') = extract_metrics content (cache @ ''_overall_hits'')"
    and "m (cache @ ''_overall_misses'') = extract_metrics content (cache @ ''_overall_misses'')"
    and "m (cache @ ''_hit_rate'') = None"
    and "r (cache @ ''_hit_rate'') = m' (cache @ ''_hit_rate'')"
proof -
  from ret obtain m1 m2 m3 where
    c: "branch_step (extract_metrics content) = Inr m1" "cache_step ''icache'' m1 = Inr m2"
      "cache_step ''dcache'' m2 = Inr m3" "cache_step ''l2cache'' m3 = Inr r"
    by (rule parse_chain)
  note der = derived_not_in_catalog [THEN extract_not_in_catalog, of content]
  have k1: "\<And>k. k \<noteq> ''branch_accuracy'' \<Longrightarrow> m1 k = extract_metrics content k"
    using branch_keep [OF c(1)] by simp
  have k2: "\<And>k. k \<noteq> ''icache_hit_rate'' \<Longrightarrow> m2 k = m1 k"
    using cache_keep [OF c(2)] by simp
  have k3: "\<And>k. k \<noteq> ''dcache_hit_rate'' \<Longrightarrow> m3 k = m2 k"
    using cache_keep [OF c(3)] by simp
  have k4: "\<And>k. k \<noteq> ''l2cache_hit_rate'' \<Longrightarrow> r k = m3 k"
    using cache_keep [OF c(4)] by simp
  consider "cache = ''icache''" | "cache = ''dcache''" | "cache = ''l2cache''"
    using ca by (auto simp: caches_def)
  then show ?thesis
  proof cases
    case 1
    show ?thesis
    proof (rule that [of m1 m2])
      show "cache_step cache m1 = Inr m2" using c(2) 1 by simp
      show "m1 (cache @ ''_overall_hits'') = extract_metrics content (cache @ ''_overall_hits'')"
        using k1 1 by simp
      show "m1 (cache @ ''_overall_misses'') = extract_metrics content (cache @ ''_overall_misses'')"
        using k1 1 by simp
      show "m1 (cache @ ''_hit_rate'') = None" using k1 [of "''icache_hit_rate''"] der(2) 1 by simp
      show "r (cache @ ''_hit_rate'') = m2 (cache @ ''_hit_rate'')"
        using k4 [of "''icache_hit_rate''"] k3 [of "''icache_hit_rate''"] 1 by simp
    qed
  next
    case 2
    show ?thesis
    proof (rule that [of m2 m3])
      show "cache_step cache m2 = Inr m3" using c(3) 2 by simp
      show "m2 (cache @ ''_overall_hits'') = extract_metrics content (cache @ ''_overall_hits'')"
        using k1 [of "''dcache_overall_hits''"] k2 [of "''dcache_overall_hits''"] 2 by simp
      show "m2 (cache @ ''_overall_misses'') = extract_metrics content (cache @ ''_overall_misses'')"
        using k1 [of "''dcache_overall_misses''"] k2 [of "''dcache_overall_misses''"] 2 by simp
      show "m2 (cache @ ''_hit_rate'') = None"
        using k1 [of "''dcache_hit_rate''"] k2 [of "''dcache_hit_rate''"] der(3) 2 by simp
      show "r (cache @ ''_hit_rate'') = m3 (cache @ ''_hit_rate'')"
        using k4 [of "''dcache_hit_rate''"] 2 by simp
    qed
  next
    case 3
    show ?thesis
    proof (rule that [of m3 r])
      show "cache_step cache m3 = Inr r" using c(4) 3 by simp
      show "m3 (cache @ ''_overall_hits'') = extract_metrics content (cache @ ''_overall_hits'')"
        using k1 [of "''l2cache_overall_hits''"] k2 [of "''l2cache_overall_hits''"]
          k3 [of "''l2cache_overall_hits''"] 3 by simp
      show "m3 (cache @ ''_overall_misses'') = extract_metrics content (cache @ ''_overall_misses'')"
        using k1 [of "''l2cache_overall_misses''"] k2 [of "''l2cache_overall_misses''"]
          k3 [of "''l2cache_overall_misses''"] 3 by simp
      show "m3 (cache @ ''_hit_rate'') = None"
        using k1 [of "''l2cache_hit_rate''"] k2 [of "''l2cache_hit_rate''"]
          k3 [of "''l2cache_hit_rate''"] der(4) 3 by simp
      show "r (cache @ ''_hit_rate'') = r (cache @ ''_hit_rate'')" by simp
    qed
  qed
qed

lemma report_hit_rate:
  assumes ret: "parse_stats_content content = Inr r" and ca: "cache \<in> set caches"
    and a: "r (cache @ ''_overall_hits'') = Some vh"
    and b: "r (cache @ ''_overall_misses'') = Some vm"
  shows "\<exists>h ms. vh = VInt h \<and> vm = VInt ms \<and>
           r (cache @ ''_hit_rate'') =
             Some (VFloat (if 0 < h + ms then of_int h / of_int (h + ms) else 0))"
proof -
  note ck = cache_keys [OF ca]
  from ret ca obtain m m' where st: "cache_step cache m = Inr m'"
    and mh: "m (cache @ ''_overall_hits'') = extract_metrics content (cache @ ''_overall_hits'')"
    and mm: "m (cache @ ''_overall_misses'') = extract_metrics content (cache @ ''_overall_misses'')"
    and rr: "r (cache @ ''_hit_rate'') = m' (cache @ ''_hit_rate'')"
    by (rule report_cache_step)
  have eh: "extract_metrics content (cache @ ''_overall_hits'') = Some vh"
    using report_primary [OF ret ck(1,2,3,4)] a by simp
  have em: "extract_metrics content (cache @ ''_overall_misses'') = Some vm"
    using report_primary [OF ret ck(5,6,7,8)] b by simp
  obtain lh where lh: "map_of patterns (cache @ ''_overall_hits'') = Some (lh, Digits)"
    using ck(9) by blast
  obtain lm where lm: "map_of patterns (cache @ ''_overall_misses'') = Some (lm, Digits)"
    using ck(10) by blast
  have th: "(\<exists>n. vh = VInt (int n)) \<or> (\<exists>s. vh = VStr s)"
    using extract_counter [OF lh, of content] eh by auto
  have tm: "(\<exists>n. vm = VInt (int n)) \<or> (\<exists>s. vm = VStr s)"
    using extract_counter [OF lm, of content] em by auto
  have "m (cache @ ''_overall_hits'') = Some vh" "m (cache @ ''_overall_misses'') = Some vm"
    using mh mm eh em by simp_all
  from cache_typed [OF st this th tm] show ?thesis unfolding rr .
qed

lemma report_hit_rate_missing:
  assumes ret: "parse_stats_content content = Inr r" and ca: "cache \<in> set caches"
    and a: "r (cache @ ''_overall_hits'') = None \<or> r (cache @ ''_overall_misses'') = None"
  shows "r (cache @ ''_hit_rate'') = None"
proof -
  note ck = cache_keys [OF ca]
  from ret ca obtain m m' where st: "cache_step cache m = Inr m'"
    and mh: "m (cache @ ''_overall_hits'') = extract_metrics content (cache @ ''_overall_hits'')"
    and mm: "m (cache @ ''_overall_misses'') = extract_metrics content (cache @ ''_overall_misses'')"
    and mr: "m (cache @ ''_hit_rate'') = None"
    and rr: "r (cache @ ''_hit_rate'') = m' (cache @ ''_hit_rate'')"
    by (rule report_cache_step)
  have "m (cache @ ''_overall_hits'') = None \<or> m (cache @ ''_overall_misses'') = None"
    using a mh mm report_primary [OF ret ck(1,2,3,4)] report_primary [OF ret ck(5,6,7,8)]
    by simp
  then have "m' = m" by (rule cache_missing [OF st])
  then show ?thesis using rr mr by simp
qed


section \<open>Texts on which the extractor returns\<close>

lemma metric_of_Inr:
  "metric_of res k = Inr v \<longleftrightarrow> (\<exists>r. res = Inr r \<and> r k = v)"
  by (cases res) (auto simp: metric_of_def)

lemma extract_at:
  "map_of patterns k = Some p \<Longrightarrow>
   extract_metrics content k = map_option convert (re_search p content)"
  by (simp add: extract_metrics_lookup)

lemma parse_no_derived:
  assumes "extract_metrics content ''branch_condPredicted'' = None \<or>
           extract_metrics content ''branch_condIncorrect'' = None"
    and "\<forall>cache\<in>set caches.
           extract_metrics content (cache @ ''_overall_hits'') = None \<or>
           extract_metrics content (cache @ ''_overall_misses'') = None"
  shows "parse_stats_content content = Inr (extract_metrics content)"
proof -
  let ?E = "extract_metrics content"
  have b: "branch_step ?E = Inr ?E"
    using assms(1) by (auto simp: branch_step_def split: option.splits)
  have c: "cache_step cache ?E = Inr ?E" if "cache \<in> set caches" for cache
    using assms(2) that by (auto simp: cache_step_def split: option.splits)
  show ?thesis
    using b c by (simp add: parse_stats_content_def caches_def)
qed

lemma parse_returns:
  assumes br: "extract_metrics content ''branch_condPredicted'' = None \<or>
      extract_metrics content ''branch_condIncorrect'' = None \<or>
      (\<exists>p c. extract_metrics content ''branch_condPredicted'' = Some (VInt p) \<and>
             extract_metrics content ''branch_condIncorrect'' = Some (VInt c) \<and>
             (0 < p \<longrightarrow> \<not> float_overflows (of_int c / of_int p))) \<or>
      (\<exists>p v. extract_metrics content ''branch_condPredicted'' = Some (VInt p) \<and> \<not> 0 < p \<and>
             extract_metrics content ''branch_condIncorrect'' = Some v)"
    and ca: "\<forall>cache\<in>set caches.
      extract_metrics content (cache @ ''_overall_hits'') = None \<or>
      extract_metrics content (cache @ ''_overall_misses'') = None \<or>
      (\<exists>h ms. extract_metrics content (cache @ ''_overall_hits'') = Some (VInt h) \<and>
              extract_metrics content (cache @ ''_overall_misses'') = Some (VInt ms))"
  shows "\<exists>r. parse_stats_content content = Inr r"
proof -
  let ?E = "extract_metrics content"
  have step: "\<exists>m'. cache_step cache m = Inr m'"
    if "cache \<in> set caches"
      and "m (cache @ ''_overall_hits'') = ?E (cache @ ''_overall_hits'')"
      and "m (cache @ ''_overall_misses'') = ?E (cache @ ''_overall_misses'')"
    for cache m
  proof -
    note ck = cache_keys [OF that(1)]
    obtain lh where lh: "map_of patterns (cache @ ''_overall_hits'') = Some (lh, Digits)"
      using ck(9) by blast
    obtain lm where lm: "map_of patterns (cache @ ''_overall_misses'') = Some (lm, Digits)"
      using ck(10) by blast
    have "?E (cache @ ''_overall_hits'') = None \<or> ?E (cache @ ''_overall_misses'') = None \<or>
      (\<exists>h ms. ?E (cache @ ''_overall_hits'') = Some (VInt (int h)) \<and>
              ?E (cache @ ''_overall_misses'') = Some (VInt (int ms)))"
      using ca that(1) extract_counter [OF lh, of content] extract_counter [OF lm, of content]
      by fastforce
    then show ?thesis
      using cache_returns [of m cache] that(2,3) by simp
  qed
  obtain m1 where m1: "branch_step ?E = Inr m1"
    using branch_returns [OF br] by blast
  have k1: "\<And>k. k \<noteq> ''branch_accuracy'' \<Longrightarrow> m1 k = ?E k"
    using branch_keep [OF m1] by simp
  have "\<exists>m'. cache_step ''icache'' m1 = Inr m'"
    by (rule step) (simp_all add: caches_def k1)
  then obtain m2 where m2: "cache_step ''icache'' m1 = Inr m2" by blast
  have k2: "\<And>k. k \<noteq> ''icache_hit_rate'' \<Longrightarrow> m2 k = m1 k"
    using cache_keep [OF m2] by simp
  have "\<exists>m'. cache_step ''dcache'' m2 = Inr m'"
    by (rule step) (simp_all add: caches_def k1 k2)
  then obtain m3 where m3: "cache_step ''dcache'' m2 = Inr m3" by blast
  have k3: "\<And>k. k \<noteq> ''dcache_hit_rate'' \<Longrightarrow> m3 k = m2 k"
    using cache_keep [OF m3] by simp
  have "\<exists>m'. cache_step ''l2cache'' m3 = Inr m'"
    by (rule step) (simp_all add: caches_def k1 k2 k3)
  then obtain m4 where m4: "cache_step ''l2cache'' m3 = Inr m4" by blast
  show ?thesis
    by (simp add: parse_stats_content_def caches_def m1 m2 m3 m4)
qed

section \<open>Evaluating the matcher and the conversion on given texts\<close>

lemma re_search_replicate_none:
  "lit \<noteq> [] \<Longrightarrow> hd lit \<noteq> c \<Longrightarrow> re_search (lit, cls) (replicate n c) = None"
proof (induction n)
  case 0
  then show ?case by (cases lit) (simp_all add: match_here_def)
next
  case (Suc n)
  then show ?case by (cases lit) (simp_all add: match_here_def)
qed

lemma re_search_here:
  "match_here p s = Some tok \<Longrightarrow> re_search p s = Some tok"
  by (cases s) simp_all

lemma all_digit_ones: "list_all is_digit (replicate n CHR ''1'')"
  by (simp add: list_all_iff is_digit_def)

lemmas matcher_eval = match_here_def is_space_def is_digit_def
lemmas convert_eval = convert_def py_float_def py_mantissa_def py_exponent_def py_int_def
  is_e_def is_digit_def nat_of_digits_def digit_val_def all_digits_def max_str_digits_def

text \<open>
  Rules that move the search over a text one character at a time: past a character that
  is not the first of the literal, and into an attempt where it is.
\<close>

lemma re_search_mismatch:
  "a \<noteq> c \<Longrightarrow> re_search (a # as, cls) (c # cs) = re_search (a # as, cls) cs"
  by (simp add: match_here_def)

lemma re_search_hit:
  "re_search (a # as, cls) (a # cs) =
     (case match_here (a # as, cls) (a # cs) of
        Some tok \<Rightarrow> Some tok
      | None \<Rightarrow> re_search (a # as, cls) cs)"
  by simp

lemma re_search_end: "re_search (a # as, cls) [] = None"
  by (simp add: match_here_def)

declare re_search.simps [simp del]

lemmas search_eval = re_search_mismatch re_search_hit re_search_end
  match_here_def is_space_def is_digit_def

lemma in_patterns_map_of: "(name, p) \<in> set patterns \<Longrightarrow> map_of patterns name = Some p"
  using distinct_patterns by (rule map_of_is_SomeI)

lemma report_catalog:
  assumes "parse_stats_content content = Inr r" and "map_of patterns k = Some p"
  shows "r k = map_option convert (re_search p content)"
proof -
  have ne: "k \<noteq> ''branch_accuracy''" "k \<noteq> ''icache_hit_rate''"
      "k \<noteq> ''dcache_hit_rate''" "k \<noteq> ''l2cache_hit_rate''"
    using assms(2) derived_not_in_catalog by auto
  show ?thesis
    using report_primary [OF assms(1) ne] extract_at [OF assms(2), of content] by simp
qed

lemma metric_of_no_derived:
  assumes "extract_metrics content ''branch_condPredicted'' = None \<or>
           extract_metrics content ''branch_condIncorrect'' = None"
    and "\<forall>cache\<in>set caches.
           extract_metrics content (cache @ ''_overall_hits'') = None \<or>
           extract_metrics content (cache @ ''_overall_misses'') = None"
  shows "metric_of (parse_stats_content content) k = Inr (extract_metrics content k)"
  using parse_no_derived [OF assms] by (simp add: metric_of_def)

lemma metric_of_returned:
  assumes "\<exists>r. parse_stats_content content = Inr r"
    and "k \<noteq> ''branch_accuracy''" "k \<noteq> ''icache_hit_rate''"
    "k \<noteq> ''dcache_hit_rate''" "k \<noteq> ''l2cache_hit_rate''"
  shows "metric_of (parse_stats_content content) k = Inr (extract_metrics content k)"
proof -
  obtain r where r: "parse_stats_content content = Inr r" using assms(1) by blast
  show ?thesis using report_primary [OF r assms(2-5)] r by (simp add: metric_of_def)
qed

lemmas sample_eval = caches_def extract_at counter_patterns search_eval convert_eval

section \<open>A stats file that is not there\<close>

text \<open>
  C4: for a stats path that does not exist, \<open>parse_stats_file\<close> prints one warning naming
  the path and returns the empty report, with no primary and no derived metric; it opens
  nothing and raises nothing.
\<close>

theorem parse_stats_file_missing:
  "fs stats_path = None \<Longrightarrow>
   parse_stats_file fs stats_path =
     ([Printed (''Warning: Stats file not found: '' @ stats_path)], Inr Map.empty)"
  by (simp add: parse_stats_file_def)

theorem parse_stats_file_missing_witness:
  "(Map.empty :: filesystem) ''run/stats.txt'' = None \<and>
   parse_stats_file Map.empty ''run/stats.txt'' =
     ([Printed ''Warning: Stats file not found: run/stats.txt''], Inr Map.empty)"
  using parse_stats_file_missing [of Map.empty "''run/stats.txt''"] by simp

section \<open>Branch accuracy\<close>

text \<open>
  C2, as stated, fails: a text that gives \<open>branch_condPredicted = 0\<close> and no
  \<open>branch_condIncorrect\<close> yields no \<open>branch_accuracy\<close> at all, where the claim expects
  \<open>0\<close>. The block is guarded by the presence of both counters.
\<close>

theorem branch_accuracy_counterexample:
  "metric_of (parse_stats_content ''system.cpu.branchPred.condPredicted 0'')
     ''branch_condPredicted'' = Inr (Some (VInt 0)) \<and>
   metric_of (parse_stats_content ''system.cpu.branchPred.condPredicted 0'')
     ''branch_accuracy'' = Inr None"
proof -
  let ?s = "''system.cpu.branchPred.condPredicted 0''"
  have "metric_of (parse_stats_content ?s) k = Inr (extract_metrics ?s k)" for k
    by (rule metric_of_no_derived) (simp_all add: sample_eval)
  then show ?thesis
    by (simp add: extract_at counter_patterns search_eval convert_eval
        extract_not_in_catalog derived_not_in_catalog)
qed

text \<open>
  C2, amended: in a returned report that holds both \<open>branch_condPredicted\<close> and
  \<open>branch_condIncorrect\<close>, the first is an integer \<open>p \<ge> 0\<close>. When \<open>p > 0\<close>, the second
  is an integer \<open>c\<close> and \<open>branch_accuracy\<close> is \<open>1 - c / p\<close>; when \<open>p = 0\<close>,
  \<open>branch_accuracy\<close> is \<open>0\<close> whatever \<open>branch_condIncorrect\<close> holds, a retained run of
  digits included. When either counter is missing, the report has no \<open>branch_accuracy\<close>.
  In particular \<open>100\<close> and \<open>13\<close> give \<open>0.87\<close> (the witness).
\<close>

theorem branch_accuracy_both_present:
  "(\<forall>vp vc.
      metric_of (parse_stats_content content) ''branch_condPredicted'' = Inr (Some vp) \<longrightarrow>
      metric_of (parse_stats_content content) ''branch_condIncorrect'' = Inr (Some vc) \<longrightarrow>
      (\<exists>p. vp = VInt p \<and> 0 \<le> p \<and>
         (0 < p \<longrightarrow>
            (\<exists>c. vc = VInt c \<and>
               metric_of (parse_stats_content content) ''branch_accuracy'' =
                 Inr (Some (VFloat (1 - of_int c / of_int p))))) \<and>
         (p = 0 \<longrightarrow>
            metric_of (parse_stats_content content) ''branch_accuracy'' =
              Inr (Some (VFloat 0))))) \<and>
   (metric_of (parse_stats_content content) ''branch_condPredicted'' = Inr None \<or>
    metric_of (parse_stats_content content) ''branch_condIncorrect'' = Inr None \<longrightarrow>
      metric_of (parse_stats_content content) ''branch_accuracy'' = Inr None)"
proof (intro conjI allI impI)
  fix vp vc
  assume a: "metric_of (parse_stats_content content) ''branch_condPredicted'' = Inr (Some vp)"
    and b: "metric_of (parse_stats_content content) ''branch_condIncorrect'' = Inr (Some vc)"
  from a obtain r where r: "parse_stats_content content = Inr r"
    and rp: "r ''branch_condPredicted'' = Some vp"
    unfolding metric_of_Inr by blast
  from b r have rc: "r ''branch_condIncorrect'' = Some vc"
    unfolding metric_of_Inr by simp
  show "\<exists>p. vp = VInt p \<and> 0 \<le> p \<and>
         (0 < p \<longrightarrow>
            (\<exists>c. vc = VInt c \<and>
               metric_of (parse_stats_content content) ''branch_accuracy'' =
                 Inr (Some (VFloat (1 - of_int c / of_int p))))) \<and>
         (p = 0 \<longrightarrow>
            metric_of (parse_stats_content content) ''branch_accuracy'' =
              Inr (Some (VFloat 0)))"
    using report_accuracy [OF r rp rc] by (simp add: r metric_of_def)
next
  assume a: "metric_of (parse_stats_content content) ''branch_condPredicted'' = Inr None \<or>
    metric_of (parse_stats_content content) ''branch_condIncorrect'' = Inr None"
  then obtain r where r: "parse_stats_content content = Inr r"
    unfolding metric_of_Inr by blast
  have "r ''branch_condPredicted'' = None \<or> r ''branch_condIncorrect'' = None"
    using a r by (simp add: metric_of_def)
  from report_accuracy_missing [OF r this]
  show "metric_of (parse_stats_content content) ''branch_accuracy'' = Inr None"
    by (simp add: r metric_of_def)
qed

text \<open>A counter of 4301 digits: matched, and kept as it is.\<close>

lemma long_counter:
  assumes "lit \<noteq> []"
  shows "re_search (lit, Digits) (lit @ '' '' @ replicate 4301 CHR ''1'') =
           Some (replicate 4301 CHR ''1'')"
    and "convert (replicate 4301 CHR ''1'') = VStr (replicate 4301 CHR ''1'')"
proof -
  have "match_here (lit, Digits) (lit @ '' '' @ replicate 4301 CHR ''1'' @ []) =
      Some (replicate 4301 CHR ''1'')"
    by (rule match_here_decomp) (simp_all add: is_space_def list_all_iff is_digit_def)
  then show "re_search (lit, Digits) (lit @ '' '' @ replicate 4301 CHR ''1'') =
      Some (replicate 4301 CHR ''1'')"
    using re_search_here by simp
  show "convert (replicate 4301 CHR ''1'') = VStr (replicate 4301 CHR ''1'')"
    using digits_convert [of "replicate 4301 CHR ''1''"] all_digit_ones [of 4301]
    by (simp add: max_str_digits_def)
qed

theorem branch_accuracy_both_present_witness:
  "metric_of (parse_stats_content
      ''system.cpu.branchPred.condPredicted 100\<newline>system.cpu.branchPred.condIncorrect 13\<newline>'')
     ''branch_condPredicted'' = Inr (Some (VInt 100)) \<and>
   metric_of (parse_stats_content
      ''system.cpu.branchPred.condPredicted 100\<newline>system.cpu.branchPred.condIncorrect 13\<newline>'')
     ''branch_condIncorrect'' = Inr (Some (VInt 13)) \<and>
   metric_of (parse_stats_content
      ''system.cpu.branchPred.condPredicted 100\<newline>system.cpu.branchPred.condIncorrect 13\<newline>'')
     ''branch_accuracy'' = Inr (Some (VFloat (87 / 100))) \<and>
   metric_of (parse_stats_content
      (''system.cpu.branchPred.condPredicted 0\<newline>'' @
       ''system.cpu.branchPred.condIncorrect'' @ '' '' @ replicate 4301 CHR ''1''))
     ''branch_condPredicted'' = Inr (Some (VInt 0)) \<and>
   metric_of (parse_stats_content
      (''system.cpu.branchPred.condPredicted 0\<newline>'' @
       ''system.cpu.branchPred.condIncorrect'' @ '' '' @ replicate 4301 CHR ''1''))
     ''branch_condIncorrect'' = Inr (Some (VStr (replicate 4301 CHR ''1''))) \<and>
   metric_of (parse_stats_content
      (''system.cpu.branchPred.condPredicted 0\<newline>'' @
       ''system.cpu.branchPred.condIncorrect'' @ '' '' @ replicate 4301 CHR ''1''))
     ''branch_accuracy'' = Inr (Some (VFloat 0)) \<and>
   metric_of (parse_stats_content ''system.cpu.branchPred.condIncorrect 13'')
     ''branch_condPredicted'' = Inr None \<and>
   metric_of (parse_stats_content ''system.cpu.branchPred.condIncorrect 13'')
     ''branch_accuracy'' = Inr None"
proof -
  let ?s = "''system.cpu.branchPred.condPredicted 100\<newline>system.cpu.branchPred.condIncorrect 13\<newline>''"
  let ?u = "''system.cpu.branchPred.condPredicted 0\<newline>'' @
       ''system.cpu.branchPred.condIncorrect'' @ '' '' @ replicate 4301 CHR ''1''"
  let ?t = "''system.cpu.branchPred.condIncorrect 13''"
  have rs: "\<exists>r. parse_stats_content ?s = Inr r"
    by (rule parse_returns) (simp_all add: sample_eval float_overflows_def)
  have p: "metric_of (parse_stats_content ?s) ''branch_condPredicted'' = Inr (Some (VInt 100))"
    using metric_of_returned [OF rs, of "''branch_condPredicted''"]
    by (simp add: sample_eval)
  have c: "metric_of (parse_stats_content ?s) ''branch_condIncorrect'' = Inr (Some (VInt 13))"
    using metric_of_returned [OF rs, of "''branch_condIncorrect''"]
    by (simp add: sample_eval)
  have a: "metric_of (parse_stats_content ?s) ''branch_accuracy'' = Inr (Some (VFloat (87 / 100)))"
    using branch_accuracy_both_present [of ?s] p c by simp
  have skip: "re_search (''system.cpu.branchPred.condIncorrect'', Digits)
        (''system.cpu.branchPred.condPredicted 0\<newline>'' @ X) =
      re_search (''system.cpu.branchPred.condIncorrect'', Digits) X" for X
    by (simp add: search_eval)
  have ec: "extract_metrics ?u ''branch_condIncorrect'' = Some (VStr (replicate 4301 CHR ''1''))"
    using long_counter [of "''system.cpu.branchPred.condIncorrect''"]
    by (simp only: extract_at [OF counter_patterns(2)] skip) simp
  have ep: "extract_metrics ?u ''branch_condPredicted'' = Some (VInt 0)"
    by (simp add: sample_eval)
  have hits: "extract_metrics ?u ''icache_overall_hits'' = None"
    "extract_metrics ?u ''dcache_overall_hits'' = None"
    "extract_metrics ?u ''l2cache_overall_hits'' = None"
    by (simp_all add: sample_eval re_search_replicate_none)
  have ru: "\<exists>r. parse_stats_content ?u = Inr r"
  proof (rule parse_returns)
    show "extract_metrics ?u ''branch_condPredicted'' = None \<or>
      extract_metrics ?u ''branch_condIncorrect'' = None \<or>
      (\<exists>p c. extract_metrics ?u ''branch_condPredicted'' = Some (VInt p) \<and>
             extract_metrics ?u ''branch_condIncorrect'' = Some (VInt c) \<and>
             (0 < p \<longrightarrow> \<not> float_overflows (of_int c / of_int p))) \<or>
      (\<exists>p v. extract_metrics ?u ''branch_condPredicted'' = Some (VInt p) \<and> \<not> 0 < p \<and>
             extract_metrics ?u ''branch_condIncorrect'' = Some v)"
      using ep ec by simp
    show "\<forall>cache\<in>set caches.
      extract_metrics ?u (cache @ ''_overall_hits'') = None \<or>
      extract_metrics ?u (cache @ ''_overall_misses'') = None \<or>
      (\<exists>h ms. extract_metrics ?u (cache @ ''_overall_hits'') = Some (VInt h) \<and>
              extract_metrics ?u (cache @ ''_overall_misses'') = Some (VInt ms))"
      using hits by (simp add: caches_def)
  qed
  have up: "metric_of (parse_stats_content ?u) ''branch_condPredicted'' = Inr (Some (VInt 0))"
    using metric_of_returned [OF ru, of "''branch_condPredicted''"] ep by simp
  have uc: "metric_of (parse_stats_content ?u) ''branch_condIncorrect'' =
      Inr (Some (VStr (replicate 4301 CHR ''1'')))"
    using metric_of_returned [OF ru, of "''branch_condIncorrect''"] ec by simp
  have ua: "metric_of (parse_stats_content ?u) ''branch_accuracy'' = Inr (Some (VFloat 0))"
    using branch_accuracy_both_present [of ?u] up uc by simp
  have n: "metric_of (parse_stats_content ?t) ''branch_condPredicted'' = Inr None"
    by (subst metric_of_no_derived) (simp_all add: sample_eval)
  have b: "metric_of (parse_stats_content ?t) ''branch_accuracy'' = Inr None"
    using branch_accuracy_both_present [of ?t] n by simp
  show ?thesis using p c a up uc ua n b by simp
qed

section \<open>Cache hit rates\<close>

text \<open>
  C3, as stated, fails: with \<open>icache_overall_hits\<close> present and
  \<open>icache_overall_misses\<close> missing, the claim's "else" gives \<open>icache_hit_rate = 0\<close>, but
  no \<open>icache_hit_rate\<close> is produced.
\<close>

theorem hit_rate_counterexample:
  "metric_of (parse_stats_content ''system.cpu.icache.overall_hits::total 80'')
     ''icache_overall_hits'' = Inr (Some (VInt 80)) \<and>
   metric_of (parse_stats_content ''system.cpu.icache.overall_hits::total 80'')
     ''icache_overall_misses'' = Inr None \<and>
   metric_of (parse_stats_content ''system.cpu.icache.overall_hits::total 80'')
     ''icache_hit_rate'' = Inr None"
proof -
  let ?s = "''system.cpu.icache.overall_hits::total 80''"
  have "metric_of (parse_stats_content ?s) k = Inr (extract_metrics ?s k)" for k
    by (rule metric_of_no_derived) (simp_all add: sample_eval)
  then show ?thesis
    by (simp add: extract_at counter_patterns search_eval convert_eval
        extract_not_in_catalog derived_not_in_catalog)
qed

text \<open>
  C3, amended: for each cache tier, when both \<open>overall_hits\<close> and \<open>overall_misses\<close> are
  in the report they are integers \<open>h\<close> and \<open>ms\<close>, and the hit rate is \<open>h / (h + ms)\<close>
  when \<open>h + ms > 0\<close> and \<open>0\<close> otherwise; when either counter is missing (so also when
  both are), no hit rate is produced. In particular \<open>80\<close> and \<open>20\<close> give \<open>0.8\<close> (the
  witness).
\<close>

theorem hit_rate_both_present:
  "cache \<in> set caches \<Longrightarrow>
   (\<forall>vh vm.
      metric_of (parse_stats_content content) (cache @ ''_overall_hits'') = Inr (Some vh) \<longrightarrow>
      metric_of (parse_stats_content content) (cache @ ''_overall_misses'') = Inr (Some vm) \<longrightarrow>
      (\<exists>h ms. vh = VInt h \<and> vm = VInt ms \<and>
         metric_of (parse_stats_content content) (cache @ ''_hit_rate'') =
           Inr (Some (VFloat (if 0 < h + ms then of_int h / of_int (h + ms) else 0))))) \<and>
   (metric_of (parse_stats_content content) (cache @ ''_overall_hits'') = Inr None \<or>
    metric_of (parse_stats_content content) (cache @ ''_overall_misses'') = Inr None \<longrightarrow>
      metric_of (parse_stats_content content) (cache @ ''_hit_rate'') = Inr None)"
proof (intro conjI allI impI)
  fix vh vm
  assume ca: "cache \<in> set caches"
    and a: "metric_of (parse_stats_content content) (cache @ ''_overall_hits'') = Inr (Some vh)"
    and b: "metric_of (parse_stats_content content) (cache @ ''_overall_misses'') = Inr (Some vm)"
  from a obtain r where r: "parse_stats_content content = Inr r"
    and rh: "r (cache @ ''_overall_hits'') = Some vh"
    unfolding metric_of_Inr by blast
  from b r have rm: "r (cache @ ''_overall_misses'') = Some vm"
    unfolding metric_of_Inr by simp
  show "\<exists>h ms. vh = VInt h \<and> vm = VInt ms \<and>
         metric_of (parse_stats_content content) (cache @ ''_hit_rate'') =
           Inr (Some (VFloat (if 0 < h + ms then of_int h / of_int (h + ms) else 0)))"
    using report_hit_rate [OF r ca rh rm] by (simp add: r metric_of_def)
next
  assume ca: "cache \<in> set caches"
    and a: "metric_of (parse_stats_content content) (cache @ ''_overall_hits'') = Inr None \<or>
      metric_of (parse_stats_content content) (cache @ ''_overall_misses'') = Inr None"
  then obtain r where r: "parse_stats_content content = Inr r"
    unfolding metric_of_Inr by blast
  have "r (cache @ ''_overall_hits'') = None \<or> r (cache @ ''_overall_misses'') = None"
    using a r by (simp add: metric_of_def)
  from report_hit_rate_missing [OF r ca this]
  show "metric_of (parse_stats_content content) (cache @ ''_hit_rate'') = Inr None"
    by (simp add: r metric_of_def)
qed

theorem hit_rate_both_present_witness:
  "''dcache'' \<in> set caches \<and>
   metric_of (parse_stats_content
      ''system.cpu.dcache.overall_hits::total 80\<newline>system.cpu.dcache.overall_misses::total 20\<newline>'')
     ''dcache_overall_hits'' = Inr (Some (VInt 80)) \<and>
   metric_of (parse_stats_content
      ''system.cpu.dcache.overall_hits::total 80\<newline>system.cpu.dcache.overall_misses::total 20\<newline>'')
     ''dcache_overall_misses'' = Inr (Some (VInt 20)) \<and>
   metric_of (parse_stats_content
      ''system.cpu.dcache.overall_hits::total 80\<newline>system.cpu.dcache.overall_misses::total 20\<newline>'')
     ''dcache_hit_rate'' = Inr (Some (VFloat (8 / 10))) \<and>
   metric_of (parse_stats_content '''') ''dcache_overall_hits'' = Inr None \<and>
   metric_of (parse_stats_content '''') ''dcache_hit_rate'' = Inr None"
proof -
  let ?s = "''system.cpu.dcache.overall_hits::total 80\<newline>system.cpu.dcache.overall_misses::total 20\<newline>''"
  have ca: "''dcache'' \<in> set caches" by (simp add: caches_def)
  have rs: "\<exists>r. parse_stats_content ?s = Inr r"
    by (rule parse_returns) (simp_all add: sample_eval)
  have h: "metric_of (parse_stats_content ?s) ''dcache_overall_hits'' = Inr (Some (VInt 80))"
    using metric_of_returned [OF rs, of "''dcache_overall_hits''"] by (simp add: sample_eval)
  have m: "metric_of (parse_stats_content ?s) ''dcache_overall_misses'' = Inr (Some (VInt 20))"
    using metric_of_returned [OF rs, of "''dcache_overall_misses''"] by (simp add: sample_eval)
  have n: "metric_of (parse_stats_content '''') ''dcache_overall_hits'' = Inr None"
    by (subst metric_of_no_derived) (simp_all add: sample_eval)
  have a: "metric_of (parse_stats_content ?s) ''dcache_hit_rate'' = Inr (Some (VFloat (8 / 10)))"
    using hit_rate_both_present [OF ca, of ?s] h m by simp
  have b: "metric_of (parse_stats_content '''') ''dcache_hit_rate'' = Inr None"
    using hit_rate_both_present [OF ca, of "''''"] n by simp
  show ?thesis using ca h m n a b by simp
qed

section \<open>A token that does not convert\<close>

text \<open>A retained token stays in the report whenever a report is returned.\<close>

lemma raw_token_kept:
  assumes "parse_stats_content content = Inr r"
    and "(name, p) \<in> set patterns"
    and "re_search p content = Some tok"
    and "if CHR ''.'' \<in> set tok \<or> list_ex is_e tok
         then py_float tok = None else py_int tok = None"
  shows "r name = Some (VStr tok)"
proof -
  have "convert tok = VStr tok"
    using assms(4) by (simp add: convert_def split: if_splits)
  then show ?thesis
    using report_catalog [OF assms(1) in_patterns_map_of [OF assms(2)]] assms(3) by simp
qed

lemma py_int_long:
  assumes "list_all is_digit ds" and "max_str_digits < length ds"
  shows "py_int ds = None"
proof -
  obtain c cs where ds: "ds = c # cs" using assms(2) by (cases ds) auto
  have "is_digit c" using assms(1) ds by simp
  then have "split_sign ds = (1, ds)" using digit_facts [of c] ds by simp
  then show ?thesis using assms(2) by (simp add: py_int_def)
qed

text \<open>
  C5 does not hold of the code. The \<open>try\<close> keeps a token that does not convert, but the
  derived block then computes with it: on the text below the pattern of
  \<open>branch_condPredicted\<close> matches, \<open>int\<close> refuses the 4301 digits, the token is stored
  as a \<open>str\<close>, and the comparison \<open>metrics['branch_condPredicted'] > 0\<close> raises
  \<open>TypeError\<close>, which leaves \<open>parse_stats_file\<close>.
\<close>

theorem retained_counter_raises:
  "re_search (''system.cpu.branchPred.condPredicted'', Digits)
     (''system.cpu.branchPred.condIncorrect 1\<newline>'' @
      ''system.cpu.branchPred.condPredicted'' @ '' '' @ replicate 4301 CHR ''1'') =
     Some (replicate 4301 CHR ''1'') \<and>
   py_int (replicate 4301 CHR ''1'') = None \<and>
   extract_metrics
     (''system.cpu.branchPred.condIncorrect 1\<newline>'' @
      ''system.cpu.branchPred.condPredicted'' @ '' '' @ replicate 4301 CHR ''1'')
     ''branch_condPredicted'' = Some (VStr (replicate 4301 CHR ''1'')) \<and>
   parse_stats_content
     (''system.cpu.branchPred.condIncorrect 1\<newline>'' @
      ''system.cpu.branchPred.condPredicted'' @ '' '' @ replicate 4301 CHR ''1'') =
     Inl TypeError"
proof -
  let ?u = "''system.cpu.branchPred.condIncorrect 1\<newline>'' @
      ''system.cpu.branchPred.condPredicted'' @ '' '' @ replicate 4301 CHR ''1''"
  have skip: "re_search (''system.cpu.branchPred.condPredicted'', Digits)
        (''system.cpu.branchPred.condIncorrect 1\<newline>'' @ X) =
      re_search (''system.cpu.branchPred.condPredicted'', Digits) X" for X
    by (simp add: search_eval)
  have s: "re_search (''system.cpu.branchPred.condPredicted'', Digits) ?u =
      Some (replicate 4301 CHR ''1'')"
    using long_counter(1) [of "''system.cpu.branchPred.condPredicted''"]
    by (simp only: skip) simp
  have i: "py_int (replicate 4301 CHR ''1'') = None"
    by (rule py_int_long) (simp_all add: all_digit_ones max_str_digits_def)
  have ep: "extract_metrics ?u ''branch_condPredicted'' = Some (VStr (replicate 4301 CHR ''1''))"
    using s long_counter(2) [of "''x''"]
    by (simp only: extract_at [OF counter_patterns(1)]) simp
  have ec: "extract_metrics ?u ''branch_condIncorrect'' = Some (VInt 1)"
    by (simp add: sample_eval)
  have "branch_step (extract_metrics ?u) = Inl TypeError"
    using ep ec by (simp add: branch_step_def py_gt_zero_def)
  then have "parse_stats_content ?u = Inl TypeError"
    by (simp add: parse_stats_content_def)
  then show ?thesis using s i ep by simp
qed

section \<open>The first match decides\<close>

text \<open>
  C9: when a metric's pattern matches at more than one position of the text, the value
  stored in the returned report is the conversion of the token captured at the leftmost
  matching position; a match further right has no influence.
\<close>

theorem first_match_wins:
  assumes "parse_stats_content content = Inr r"
    and "(name, p) \<in> set patterns"
    and "i < k" and "k \<le> length content"
    and "match_here p (drop i content) = Some tok"
    and "match_here p (drop k content) = Some tok'"
    and "\<forall>j<i. match_here p (drop j content) = None"
  shows "r name = Some (convert tok)"
proof -
  have "i \<le> length content" using assms(3,4) by simp
  then have "re_search p content = Some tok"
    using assms(5,7) by (rule re_search_first)
  then show ?thesis
    using report_catalog [OF assms(1) in_patterns_map_of [OF assms(2)]] by simp
qed

theorem first_match_wins_witness:
  "parse_stats_content ''# sim_insts 5\<newline>sim_insts 1000'' =
     Inr (extract_metrics ''# sim_insts 5\<newline>sim_insts 1000'') \<and>
   (''sim_insts'', (''sim_insts'', Digits)) \<in> set patterns \<and> (2::nat) < 14 \<and>
   14 \<le> length ''# sim_insts 5\<newline>sim_insts 1000'' \<and>
   match_here (''sim_insts'', Digits) (drop 2 ''# sim_insts 5\<newline>sim_insts 1000'') = Some ''5'' \<and>
   match_here (''sim_insts'', Digits) (drop 14 ''# sim_insts 5\<newline>sim_insts 1000'') = Some ''1000'' \<and>
   match_here (''sim_insts'', Digits) (drop 0 ''# sim_insts 5\<newline>sim_insts 1000'') = None \<and>
   match_here (''sim_insts'', Digits) (drop 1 ''# sim_insts 5\<newline>sim_insts 1000'') = None \<and>
   extract_metrics ''# sim_insts 5\<newline>sim_insts 1000'' ''sim_insts'' = Some (VInt 5)"
proof -
  let ?s = "''# sim_insts 5\<newline>sim_insts 1000''"
  let ?p = "(''sim_insts'', Digits)"
  have rs: "parse_stats_content ?s = Inr (extract_metrics ?s)"
    by (rule parse_no_derived) (simp_all add: sample_eval)
  have a: "(''sim_insts'', ?p) \<in> set patterns" by (simp add: patterns_def)
  have b: "(2::nat) < 14" by simp
  have c: "14 \<le> length ?s" by simp
  have d: "match_here ?p (drop 2 ?s) = Some ''5''" by (simp add: matcher_eval)
  have e: "match_here ?p (drop 14 ?s) = Some ''1000''" by (simp add: matcher_eval)
  have f0: "match_here ?p (drop 0 ?s) = None" and f1: "match_here ?p (drop 1 ?s) = None"
    by (simp_all add: matcher_eval)
  have f: "\<forall>j<2. match_here ?p (drop j ?s) = None"
  proof (intro allI impI)
    fix j :: nat assume "j < 2"
    then have "j = 0 \<or> j = 1" by arith
    then show "match_here ?p (drop j ?s) = None"
      using f0 f1 by blast
  qed
  have g: "convert ''5'' = VInt 5" by (simp add: convert_eval)
  show ?thesis using first_match_wins [OF rs a b c d e f] rs a c d e f0 f1 g by simp
qed

section \<open>Patterns that capture digits only\<close>

text \<open>The metrics whose pattern captures \<open>\d+\<close>.\<close>

lemma digits_metrics:
  "map fst (filter (\<lambda>mp. snd (snd mp) = Digits) patterns) =
     [''sim_insts'', ''committedInsts'', ''numCycles'', ''branch_lookups'',
      ''branch_condPredicted'', ''branch_condIncorrect'',
      ''icache_overall_hits'', ''icache_overall_misses'',
      ''dcache_overall_hits'', ''dcache_overall_misses'',
      ''l2cache_overall_hits'', ''l2cache_overall_misses'',
      ''rob_reads'', ''rob_writes'', ''iq_reads'', ''iq_writes'']"
  by (simp add: patterns_def)

text \<open>The value of a run of digits, position by position.\<close>

lemma nat_of_digits_snoc:
  "nat_of_digits (ds @ [d]) = 10 * nat_of_digits ds + digit_val d"
  by (simp add: nat_of_digits_def)

lemma nat_of_digits_sum:
  "nat_of_digits ds =
     (\<Sum>j<length ds. ((of_char (ds ! j) :: nat) - 48) * 10 ^ (length ds - Suc j))"
proof (induction ds rule: rev_induct)
  case Nil
  then show ?case by (simp add: nat_of_digits_def)
next
  case (snoc d ds)
  have "(\<Sum>j<length ds. ((of_char ((ds @ [d]) ! j) :: nat) - 48) * 10 ^ (length (ds @ [d]) - Suc j)) =
        (\<Sum>j<length ds. 10 * (((of_char (ds ! j) :: nat) - 48) * 10 ^ (length ds - Suc j)))"
  proof (rule sum.cong)
    fix j assume "j \<in> {..<length ds}"
    then have j: "j < length ds" by simp
    then have "length (ds @ [d]) - Suc j = Suc (length ds - Suc j)" by simp
    then show "((of_char ((ds @ [d]) ! j) :: nat) - 48) * 10 ^ (length (ds @ [d]) - Suc j) =
        10 * (((of_char (ds ! j) :: nat) - 48) * 10 ^ (length ds - Suc j))"
      using j by (simp add: nth_append mult.left_commute)
  qed simp
  then have "(\<Sum>j<length (ds @ [d]).
        ((of_char ((ds @ [d]) ! j) :: nat) - 48) * 10 ^ (length (ds @ [d]) - Suc j)) =
      10 * (\<Sum>j<length ds. ((of_char (ds ! j) :: nat) - 48) * 10 ^ (length ds - Suc j)) +
      ((of_char d :: nat) - 48)"
    by (simp add: sum_distrib_left)
  then show ?case
    using snoc.IH by (simp add: nat_of_digits_snoc digit_val_def)
qed

text \<open>
  C10, as stated, fails: a match does not always store an integer. \<open>int\<close> refuses a run
  of 4301 digits, and the report holds the run as a \<open>str\<close>.
\<close>

theorem digits_only_counterexample:
  "metric_of (parse_stats_content (''sim_insts'' @ '' '' @ replicate 4301 CHR ''1''))
     ''sim_insts'' = Inr (Some (VStr (replicate 4301 CHR ''1'')))"
proof -
  let ?u = "''sim_insts'' @ '' '' @ replicate 4301 CHR ''1''"
  have si: "map_of patterns ''sim_insts'' = Some (''sim_insts'', Digits)"
    by (simp add: patterns_def)
  have "metric_of (parse_stats_content ?u) ''sim_insts'' = Inr (extract_metrics ?u ''sim_insts'')"
    by (rule metric_of_no_derived)
       (simp_all add: sample_eval re_search_replicate_none)
  then show ?thesis
    using long_counter [of "''sim_insts''"]
    by (simp only: extract_at [OF si]) simp
qed

text \<open>
  C10, amended: in a returned report a metric whose pattern captures digits only is
  missing, a non-negative integer, or a retained run of more than 4300 digits; never a
  float, a signed value or an exponent form. Where the first match has, behind the
  literal and the whitespace, a text \<open>t\<close> that starts with a digit, the stored value is
  the decimal value of the maximal leading digit run of \<open>t\<close> when the run has at most
  4300 digits, and the run itself otherwise. The text \<open>sim_insts 10.5\<close> gives \<open>10\<close> (the
  witness).
\<close>

theorem digits_only_integer:
  assumes "parse_stats_content content = Inr r"
    and "(name, (lit, Digits)) \<in> set patterns"
  shows "(r name = None \<or> (\<exists>n. r name = Some (VInt (int n))) \<or>
          (\<exists>ds. r name = Some (VStr ds) \<and> list_all is_digit ds \<and> 4300 < length ds)) \<and>
         (\<forall>i ws t. i \<le> length content \<longrightarrow>
            (\<forall>j<i. match_here (lit, Digits) (drop j content) = None) \<longrightarrow>
            drop i content = lit @ ws @ t \<longrightarrow> ws \<noteq> [] \<longrightarrow> list_all is_space ws \<longrightarrow>
            t \<noteq> [] \<longrightarrow> is_digit (hd t) \<longrightarrow>
            r name =
              Some (if length (takeWhile is_digit t) \<le> 4300
                    then VInt (int (\<Sum>j<length (takeWhile is_digit t).
                           ((of_char (takeWhile is_digit t ! j) :: nat) - 48) *
                           10 ^ (length (takeWhile is_digit t) - Suc j)))
                    else VStr (takeWhile is_digit t)))"
proof
  note cat = report_catalog [OF assms(1) in_patterns_map_of [OF assms(2)]]
  show "r name = None \<or> (\<exists>n. r name = Some (VInt (int n))) \<or>
          (\<exists>ds. r name = Some (VStr ds) \<and> list_all is_digit ds \<and> 4300 < length ds)"
  proof (cases "re_search (lit, Digits) content")
    case None
    then show ?thesis using cat by simp
  next
    case (Some tok)
    then have tok: "tok \<noteq> []" "list_all is_digit tok"
      using re_search_token [of "(lit, Digits)" content tok] by (simp_all add: list_all_iff)
    then have "convert tok =
        (if length tok \<le> max_str_digits then VInt (int (nat_of_digits tok)) else VStr tok)"
      by (rule digits_convert)
    then show ?thesis using cat Some tok(2) by (auto simp: max_str_digits_def)
  qed
  show "\<forall>i ws t. i \<le> length content \<longrightarrow>
            (\<forall>j<i. match_here (lit, Digits) (drop j content) = None) \<longrightarrow>
            drop i content = lit @ ws @ t \<longrightarrow> ws \<noteq> [] \<longrightarrow> list_all is_space ws \<longrightarrow>
            t \<noteq> [] \<longrightarrow> is_digit (hd t) \<longrightarrow>
            r name =
              Some (if length (takeWhile is_digit t) \<le> 4300
                    then VInt (int (\<Sum>j<length (takeWhile is_digit t).
                           ((of_char (takeWhile is_digit t ! j) :: nat) - 48) *
                           10 ^ (length (takeWhile is_digit t) - Suc j)))
                    else VStr (takeWhile is_digit t))"
  proof (intro allI impI)
    fix i ws t
    assume i: "i \<le> length content"
      and first: "\<forall>j<i. match_here (lit, Digits) (drop j content) = None"
      and dec: "drop i content = lit @ ws @ t"
      and ws: "ws \<noteq> []" "list_all is_space ws"
      and t: "t \<noteq> []" "is_digit (hd t)"
    let ?tok = "takeWhile is_digit t"
    have tok: "?tok \<noteq> []" using t by (cases t) auto
    have all: "list_all (in_class Digits) ?tok"
      by (auto simp: list_all_iff dest: set_takeWhileD)
    have rest: "dropWhile is_digit t = [] \<or> \<not> in_class Digits (hd (dropWhile is_digit t))"
      using hd_dropWhile [of is_digit t] by auto
    have "match_here (lit, Digits) (lit @ ws @ ?tok @ dropWhile is_digit t) = Some ?tok"
      using ws tok all rest by (rule match_here_decomp)
    then have "match_here (lit, Digits) (drop i content) = Some ?tok"
      using dec by simp
    with i have "re_search (lit, Digits) content = Some ?tok"
      using first by (rule re_search_first)
    moreover have "convert ?tok =
        (if length ?tok \<le> max_str_digits then VInt (int (nat_of_digits ?tok)) else VStr ?tok)"
      using tok all by (intro digits_convert) (simp_all add: list_all_iff)
    ultimately show "r name =
              Some (if length (takeWhile is_digit t) \<le> 4300
                    then VInt (int (\<Sum>j<length (takeWhile is_digit t).
                           ((of_char (takeWhile is_digit t ! j) :: nat) - 48) *
                           10 ^ (length (takeWhile is_digit t) - Suc j)))
                    else VStr (takeWhile is_digit t))"
      using cat nat_of_digits_sum [of ?tok] by (simp add: max_str_digits_def)
  qed
qed

theorem digits_only_integer_witness:
  "parse_stats_content ''# sim_insts 10.5'' = Inr (extract_metrics ''# sim_insts 10.5'') \<and>
   (''sim_insts'', (''sim_insts'', Digits)) \<in> set patterns \<and>
   (2::nat) \<le> length ''# sim_insts 10.5'' \<and>
   match_here (''sim_insts'', Digits) (drop 0 ''# sim_insts 10.5'') = None \<and>
   match_here (''sim_insts'', Digits) (drop 1 ''# sim_insts 10.5'') = None \<and>
   drop 2 ''# sim_insts 10.5'' = ''sim_insts'' @ '' '' @ ''10.5'' \<and>
   '' '' \<noteq> [] \<and> list_all is_space '' '' \<and> ''10.5'' \<noteq> [] \<and> is_digit (hd ''10.5'') \<and>
   extract_metrics ''# sim_insts 10.5'' ''sim_insts'' = Some (VInt 10) \<and>
   parse_stats_content ''sim_insts 907x'' = Inr (extract_metrics ''sim_insts 907x'') \<and>
   drop 0 ''sim_insts 907x'' = ''sim_insts'' @ '' '' @ ''907x'' \<and> is_digit (hd ''907x'') \<and>
   extract_metrics ''sim_insts 907x'' ''sim_insts'' = Some (VInt 907)"
proof -
  let ?s = "''# sim_insts 10.5''"
  let ?t = "''sim_insts 907x''"
  have rs: "parse_stats_content ?s = Inr (extract_metrics ?s)"
    by (rule parse_no_derived) (simp_all add: sample_eval)
  have rt: "parse_stats_content ?t = Inr (extract_metrics ?t)"
    by (rule parse_no_derived) (simp_all add: sample_eval)
  have a: "(''sim_insts'', (''sim_insts'', Digits)) \<in> set patterns" by (simp add: patterns_def)
  have f0: "match_here (''sim_insts'', Digits) (drop 0 ?s) = None"
    and f1: "match_here (''sim_insts'', Digits) (drop 1 ?s) = None"
    by (simp_all add: matcher_eval)
  have f: "\<forall>j<2. match_here (''sim_insts'', Digits) (drop j ?s) = None"
  proof (intro allI impI)
    fix j :: nat assume "j < 2"
    then have "j = 0 \<or> j = 1" by arith
    then show "match_here (''sim_insts'', Digits) (drop j ?s) = None"
      using f0 f1 by blast
  qed
  have d: "drop 2 ?s = ''sim_insts'' @ '' '' @ ''10.5''" by simp
  have d': "drop 0 ?t = ''sim_insts'' @ '' '' @ ''907x''" by simp
  have sp: "list_all is_space '' ''" by (simp add: is_space_def)
  have dg: "is_digit (hd ''10.5'')" "is_digit (hd ''907x'')" by (simp_all add: is_digit_def)
  have tk: "takeWhile is_digit ''10.5'' = ''10''" "takeWhile is_digit ''907x'' = ''907''"
    by (simp_all add: is_digit_def)
  have s10: "(\<Sum>j<length ''10''. ((of_char (''10'' ! j) :: nat) - 48) *
      10 ^ (length ''10'' - Suc j)) = 10"
    by (simp add: lessThan_Suc)
  have s907: "(\<Sum>j<length ''907''. ((of_char (''907'' ! j) :: nat) - 48) *
      10 ^ (length ''907'' - Suc j)) = 907"
    by (simp add: lessThan_Suc)
  have "extract_metrics ?s ''sim_insts'' =
      Some (if length (takeWhile is_digit ''10.5'') \<le> 4300
            then VInt (int (\<Sum>j<length (takeWhile is_digit ''10.5'').
                   ((of_char (takeWhile is_digit ''10.5'' ! j) :: nat) - 48) *
                   10 ^ (length (takeWhile is_digit ''10.5'') - Suc j)))
            else VStr (takeWhile is_digit ''10.5''))"
    using f d sp dg(1)
    by (intro digits_only_integer [OF rs a, THEN conjunct2, rule_format,
        of 2 "'' ''" "''10.5''"]) simp_all
  then have v: "extract_metrics ?s ''sim_insts'' = Some (VInt 10)"
    unfolding tk s10 by simp
  have "extract_metrics ?t ''sim_insts'' =
      Some (if length (takeWhile is_digit ''907x'') \<le> 4300
            then VInt (int (\<Sum>j<length (takeWhile is_digit ''907x'').
                   ((of_char (takeWhile is_digit ''907x'' ! j) :: nat) - 48) *
                   10 ^ (length (takeWhile is_digit ''907x'') - Suc j)))
            else VStr (takeWhile is_digit ''907x''))"
    using d' sp dg(2)
    by (intro digits_only_integer [OF rt a, THEN conjunct2, rule_format,
        of 0 "'' ''" "''907x''"]) simp_all
  then have v': "extract_metrics ?t ''sim_insts'' = Some (VInt 907)"
    unfolding tk s907 by simp
  show ?thesis using rs rt a f0 f1 sp dg v v' by simp
qed

section \<open>The two sample lines\<close>

text \<open>
  C1, as stated, fails twice: a line \<open>ipc   1.234\<close> is not matched at all, since the
  pattern of \<open>ipc\<close> asks for \<open>system.cpu.ipc\<close>; and a text holding the line
  \<open>sim_insts   1000\<close> behind an earlier line \<open>sim_insts   5\<close> gives \<open>5\<close>.
\<close>

theorem first_match_counterexample:
  "metric_of (parse_stats_content ''ipc   1.234'') ''ipc'' = Inr None \<and>
   metric_of (parse_stats_content ''sim_insts   5\<newline>sim_insts   1000'') ''sim_insts'' =
     Inr (Some (VInt 5))"
proof -
  have ipc: "map_of patterns ''ipc'' = Some (''system.cpu.ipc'', Numeric)"
    and si: "map_of patterns ''sim_insts'' = Some (''sim_insts'', Digits)"
    by (simp_all add: patterns_def)
  have "metric_of (parse_stats_content ''ipc   1.234'') ''ipc'' =
      Inr (extract_metrics ''ipc   1.234'' ''ipc'')"
    by (rule metric_of_no_derived) (simp_all add: sample_eval)
  then have a: "metric_of (parse_stats_content ''ipc   1.234'') ''ipc'' = Inr None"
    by (simp add: extract_at [OF ipc] search_eval)
  have "metric_of (parse_stats_content ''sim_insts   5\<newline>sim_insts   1000'') ''sim_insts'' =
      Inr (extract_metrics ''sim_insts   5\<newline>sim_insts   1000'' ''sim_insts'')"
    by (rule metric_of_no_derived) (simp_all add: sample_eval)
  then have b: "metric_of (parse_stats_content ''sim_insts   5\<newline>sim_insts   1000'')
      ''sim_insts'' = Inr (Some (VInt 5))"
    by (simp add: extract_at [OF si] search_eval convert_eval)
  show ?thesis using a b by simp
qed

lemma first_match_value:
  assumes "parse_stats_content content = Inr r"
    and "map_of patterns name = Some (lit, cls)"
    and "content = pre @ lit @ ws @ tok @ rest"
    and "ws \<noteq> []" "list_all is_space ws"
    and "tok \<noteq> []" "list_all (in_class cls) tok"
    and "rest = [] \<or> \<not> in_class cls (hd rest)"
    and "\<forall>j<length pre. match_here (lit, cls) (drop j content) = None"
  shows "r name = Some (convert tok)"
proof -
  have "match_here (lit, cls) (lit @ ws @ tok @ rest) = Some tok"
    using assms(4-8) by (rule match_here_decomp)
  then have m: "match_here (lit, cls) (drop (length pre) content) = Some tok"
    using assms(3) by simp
  have "length pre \<le> length content" using assms(3) by simp
  then have "re_search (lit, cls) content = Some tok"
    using m assms(9) by (rule re_search_first)
  then show ?thesis using report_catalog [OF assms(1,2)] by simp
qed

text \<open>
  C1, amended: whenever the extractor returns a report, a text whose leftmost match of
  the \<open>ipc\<close> pattern is \<open>system.cpu.ipc\<close>, whitespace and the token \<open>1.234\<close> (the
  token ends the text or is followed by a character outside the class) has \<open>ipc\<close> mapped
  to the float \<open>1.234\<close> in it; and a text whose leftmost match of the \<open>sim_insts\<close>
  pattern is \<open>sim_insts\<close>, whitespace and \<open>1000\<close> has \<open>sim_insts\<close> mapped to the integer
  \<open>1000\<close>.
\<close>

theorem first_line_value:
  assumes "parse_stats_content content = Inr r"
  shows
  "(\<forall>pre ws rest.
      content = pre @ ''system.cpu.ipc'' @ ws @ ''1.234'' @ rest \<longrightarrow>
      ws \<noteq> [] \<longrightarrow> list_all is_space ws \<longrightarrow>
      (rest = [] \<or> \<not> in_class Numeric (hd rest)) \<longrightarrow>
      (\<forall>j<length pre. match_here (''system.cpu.ipc'', Numeric) (drop j content) = None) \<longrightarrow>
      r ''ipc'' = Some (VFloat (1234 / 1000))) \<and>
   (\<forall>pre ws rest.
      content = pre @ ''sim_insts'' @ ws @ ''1000'' @ rest \<longrightarrow>
      ws \<noteq> [] \<longrightarrow> list_all is_space ws \<longrightarrow>
      (rest = [] \<or> \<not> in_class Digits (hd rest)) \<longrightarrow>
      (\<forall>j<length pre. match_here (''sim_insts'', Digits) (drop j content) = None) \<longrightarrow>
      r ''sim_insts'' = Some (VInt 1000))"
proof -
  have ipc: "map_of patterns ''ipc'' = Some (''system.cpu.ipc'', Numeric)"
    and si: "map_of patterns ''sim_insts'' = Some (''sim_insts'', Digits)"
    by (simp_all add: patterns_def)
  have t1: "''1.234'' \<noteq> []" "list_all (in_class Numeric) ''1.234''"
    and t2: "''1000'' \<noteq> []" "list_all (in_class Digits) ''1000''"
    by (simp_all add: is_digit_def)
  have c1: "convert ''1.234'' = VFloat (1234 / 1000)"
    and c2: "convert ''1000'' = VInt 1000"
    by (simp_all add: convert_eval)
  show ?thesis
    using first_match_value [OF assms ipc _ _ _ t1]
      first_match_value [OF assms si _ _ _ t2]
    unfolding c1 c2 by blast
qed

theorem first_line_value_witness:
  "parse_stats_content ''# \<newline>system.cpu.ipc   1.234\<newline>'' =
     Inr (extract_metrics ''# \<newline>system.cpu.ipc   1.234\<newline>'') \<and>
   ''# \<newline>system.cpu.ipc   1.234\<newline>'' =
     ''# \<newline>'' @ ''system.cpu.ipc'' @ ''   '' @ ''1.234'' @ ''\<newline>'' \<and>
   ''   '' \<noteq> [] \<and> list_all is_space ''   '' \<and> \<not> in_class Numeric (hd ''\<newline>'') \<and>
   match_here (''system.cpu.ipc'', Numeric) (drop 0 ''# \<newline>system.cpu.ipc   1.234\<newline>'') = None \<and>
   match_here (''system.cpu.ipc'', Numeric) (drop 1 ''# \<newline>system.cpu.ipc   1.234\<newline>'') = None \<and>
   match_here (''system.cpu.ipc'', Numeric) (drop 2 ''# \<newline>system.cpu.ipc   1.234\<newline>'') = None \<and>
   extract_metrics ''# \<newline>system.cpu.ipc   1.234\<newline>'' ''ipc'' = Some (VFloat (1234 / 1000)) \<and>
   parse_stats_content ''x sim_insts   1000'' = Inr (extract_metrics ''x sim_insts   1000'') \<and>
   ''x sim_insts   1000'' = ''x '' @ ''sim_insts'' @ ''   '' @ ''1000'' @ [] \<and>
   match_here (''sim_insts'', Digits) (drop 0 ''x sim_insts   1000'') = None \<and>
   match_here (''sim_insts'', Digits) (drop 1 ''x sim_insts   1000'') = None \<and>
   extract_metrics ''x sim_insts   1000'' ''sim_insts'' = Some (VInt 1000)"
proof -
  let ?s = "''# \<newline>system.cpu.ipc   1.234\<newline>''"
  let ?t = "''x sim_insts   1000''"
  have rs: "parse_stats_content ?s = Inr (extract_metrics ?s)"
    by (rule parse_no_derived) (simp_all add: sample_eval)
  have rt: "parse_stats_content ?t = Inr (extract_metrics ?t)"
    by (rule parse_no_derived) (simp_all add: sample_eval)
  have d1: "?s = ''# \<newline>'' @ ''system.cpu.ipc'' @ ''   '' @ ''1.234'' @ ''\<newline>''" by simp
  have d2: "?t = ''x '' @ ''sim_insts'' @ ''   '' @ ''1000'' @ []" by simp
  have sp: "''   '' \<noteq> []" "list_all is_space ''   ''" by (simp_all add: is_space_def)
  have nl: "\<not> in_class Numeric (hd ''\<newline>'')" by (simp add: is_digit_def)
  have g1: "match_here (''system.cpu.ipc'', Numeric) (drop 0 ?s) = None"
    "match_here (''system.cpu.ipc'', Numeric) (drop 1 ?s) = None"
    "match_here (''system.cpu.ipc'', Numeric) (drop 2 ?s) = None"
    by (simp_all add: matcher_eval)
  have g2: "match_here (''sim_insts'', Digits) (drop 0 ?t) = None"
    "match_here (''sim_insts'', Digits) (drop 1 ?t) = None"
    by (simp_all add: matcher_eval)
  have f1: "\<forall>j<length ''# \<newline>''. match_here (''system.cpu.ipc'', Numeric) (drop j ?s) = None"
  proof (intro allI impI)
    fix j :: nat assume "j < length ''# \<newline>''"
    then have "j = 0 \<or> j = 1 \<or> j = 2" by auto
    then show "match_here (''system.cpu.ipc'', Numeric) (drop j ?s) = None"
      using g1 by blast
  qed
  have f2: "\<forall>j<length ''x ''. match_here (''sim_insts'', Digits) (drop j ?t) = None"
  proof (intro allI impI)
    fix j :: nat assume "j < length ''x ''"
    then have "j = 0 \<or> j = 1" by auto
    then show "match_here (''sim_insts'', Digits) (drop j ?t) = None"
      using g2 by blast
  qed
  have r1: "extract_metrics ?s ''ipc'' = Some (VFloat (1234 / 1000))"
    using first_line_value [OF rs, THEN conjunct1, rule_format,
        of "''# \<newline>''" "''   ''" "''\<newline>''"] d1 sp nl f1 by blast
  have r2: "extract_metrics ?t ''sim_insts'' = Some (VInt 1000)"
    using first_line_value [OF rt, THEN conjunct2, rule_format,
        of "''x ''" "''   ''" "[]"] d2 sp f2 by blast
  show ?thesis using rs rt d1 d2 sp nl g1 g2 r1 r2 by blast
qed

section \<open>The entry point\<close>

lemmas loader_eval = main_def generate_summary_report_def load_experiment_results_def
  load_experiment_data_def experiment_dirs_def path_join_def parse_stats_file_def

text \<open>
  C6, as stated, fails in its second half: with a results directory that exists and
  holds a regular file named \<open>basic_pipeline\<close>, listing that entry raises
  \<open>NotADirectoryError\<close>, nothing catches it, and \<open>main\<close> does not return \<open>0\<close>.
\<close>

theorem main_exit_counterexample:
  "[''res'' \<mapsto> Directory [''basic_pipeline''], ''res/basic_pipeline'' \<mapsto> RegularFile '''']
     ''res'' = Some (Directory [''basic_pipeline'']) \<and>
   snd (main [''res'' \<mapsto> Directory [''basic_pipeline''],
              ''res/basic_pipeline'' \<mapsto> RegularFile '''']
          (\<lambda>exps. ([], Inr ())) ''res'') = Inl NotADirectoryError"
  by (simp add: loader_eval)

text \<open>
  C6, amended: when the results directory does not exist, \<open>main\<close> prints one message
  naming the path and returns \<open>1\<close>, and opens and lists nothing; when it exists, \<open>main\<close>
  returns \<open>0\<close> exactly when \<open>generate_summary_report\<close> finishes without an exception,
  and an exception raised there leaves \<open>main\<close> uncaught.
\<close>

theorem main_exit_code:
  "(fs results_dir = None \<longrightarrow>
      main fs analyse results_dir =
        ([Printed (''Error: Results directory not found: '' @ results_dir)], Inr 1)) \<and>
   (fs results_dir \<noteq> None \<longrightarrow>
      (snd (main fs analyse results_dir) = Inr 0 \<longleftrightarrow>
         (\<exists>u. snd (generate_summary_report fs analyse results_dir) = Inr u)) \<and>
      (\<forall>e. snd (generate_summary_report fs analyse results_dir) = Inl e \<longrightarrow>
         snd (main fs analyse results_dir) = Inl e))"
  by (cases "generate_summary_report fs analyse results_dir")
     (auto simp: main_def split: sum.splits)

theorem main_exit_code_witness:
  "(Map.empty :: filesystem) ''res'' = None \<and>
   main Map.empty (\<lambda>exps. ([], Inr ())) ''res'' =
     ([Printed ''Error: Results directory not found: res''], Inr 1) \<and>
   [''res'' \<mapsto> Directory []] ''res'' = Some (Directory []) \<and>
   snd (generate_summary_report [''res'' \<mapsto> Directory []] (\<lambda>exps. ([], Inr ())) ''res'') = Inr () \<and>
   snd (main [''res'' \<mapsto> Directory []] (\<lambda>exps. ([], Inr ())) ''res'') = Inr 0"
proof -
  let ?an = "\<lambda>exps :: experiments. ([] :: event list, Inr () :: py_error + unit)"
  let ?fs = "[''res'' \<mapsto> Directory []] :: filesystem"
  have a: "main Map.empty ?an ''res'' =
     ([Printed ''Error: Results directory not found: res''], Inr 1)"
    using main_exit_code [of Map.empty "''res''" ?an] by simp
  have g: "snd (generate_summary_report ?fs ?an ''res'') = Inr ()"
    by (simp add: loader_eval)
  have ex: "?fs ''res'' \<noteq> None" by simp
  have b: "snd (main ?fs ?an ''res'') = Inr 0"
    using main_exit_code [of ?fs "''res''" ?an] ex g by blast
  show ?thesis using a g b by simp
qed

section \<open>Rows of the comparison table\<close>

lemma comparison_data_length:
  "length (comparison_data exps) = sum_list (map (\<lambda>ex. length (snd ex)) exps)"
  by (induction exps) (auto simp: comparison_data_def length_concat)

lemma comparison_data_member:
  "(e, ed) \<in> set exps \<Longrightarrow> (w, d) \<in> set ed \<Longrightarrow>
   build_row e w (stats d) \<in> set (comparison_data exps)"
  by (force simp: comparison_data_def)

lemma no_match_no_key:
  "(name, p) \<in> set patterns \<Longrightarrow> re_search p content = None \<Longrightarrow>
   parse_stats_content content = Inr r \<Longrightarrow> r name = None"
  using report_catalog [OF _ in_patterns_map_of, of content r name p] by simp

text \<open>
  C7: every (experiment, workload, report) triple gives one row (the table has as many
  rows as there are triples); the row carries the two labels, and each of \<open>ipc\<close>,
  \<open>sim_seconds\<close>, \<open>committedInsts\<close>, \<open>branch_accuracy\<close>, \<open>dcache_hit_rate\<close> and
  \<open>l2cache_hit_rate\<close> is the report's value when the key is present and the integer \<open>0\<close>
  when it is missing. The loop leaves \<open>self.experiments\<close> as it was, and in every report
  the extractor returns a metric whose pattern matched nowhere stays absent.
\<close>

theorem comparison_row_defaults:
  "(\<forall>ed d. (e, ed) \<in> set exps \<longrightarrow> (w, d) \<in> set ed \<longrightarrow>
      build_row e w (stats d) \<in> set (comparison_data exps)) \<and>
   length (comparison_data exps) = sum_list (map (\<lambda>ex. length (snd ex)) exps) \<and>
   experiment_name (build_row e w st) = e \<and>
   workload (build_row e w st) = w \<and>
   ipc (build_row e w st) = (case st ''ipc'' of None \<Rightarrow> VInt 0 | Some v \<Rightarrow> v) \<and>
   sim_seconds (build_row e w st) = (case st ''sim_seconds'' of None \<Rightarrow> VInt 0 | Some v \<Rightarrow> v) \<and>
   committedInsts (build_row e w st) =
     (case st ''committedInsts'' of None \<Rightarrow> VInt 0 | Some v \<Rightarrow> v) \<and>
   branch_accuracy (build_row e w st) =
     (case st ''branch_accuracy'' of None \<Rightarrow> VInt 0 | Some v \<Rightarrow> v) \<and>
   dcache_hit_rate (build_row e w st) =
     (case st ''dcache_hit_rate'' of None \<Rightarrow> VInt 0 | Some v \<Rightarrow> v) \<and>
   l2cache_hit_rate (build_row e w st) =
     (case st ''l2cache_hit_rate'' of None \<Rightarrow> VInt 0 | Some v \<Rightarrow> v) \<and>
   snd (generate_performance_comparison exps) = exps \<and>
   (\<forall>name p r. (name, p) \<in> set patterns \<longrightarrow> re_search p content = None \<longrightarrow>
      parse_stats_content content = Inr r \<longrightarrow> r name = None)"
  using comparison_data_member [of e _ exps w] comparison_data_length [of exps]
    no_match_no_key [of _ _ content]
  by (simp add: build_row_def dict_get_def generate_performance_comparison_def)

theorem comparison_row_defaults_witness:
  "(''superscalar'', [(''matmul'', \<lparr>stats = [''ipc'' \<mapsto> VFloat (3 / 2)], config_path = None\<rparr>)])
     \<in> set [(''superscalar'',
               [(''matmul'', \<lparr>stats = [''ipc'' \<mapsto> VFloat (3 / 2)], config_path = None\<rparr>)])] \<and>
   (''matmul'', \<lparr>stats = [''ipc'' \<mapsto> VFloat (3 / 2)], config_path = None\<rparr>)
     \<in> set [(''matmul'', \<lparr>stats = [''ipc'' \<mapsto> VFloat (3 / 2)], config_path = None\<rparr>)] \<and>
   build_row ''superscalar'' ''matmul'' [''ipc'' \<mapsto> VFloat (3 / 2)]
     \<in> set (comparison_data
         [(''superscalar'',
           [(''matmul'', \<lparr>stats = [''ipc'' \<mapsto> VFloat (3 / 2)], config_path = None\<rparr>)])]) \<and>
   ipc (build_row ''superscalar'' ''matmul'' [''ipc'' \<mapsto> VFloat (3 / 2)]) = VFloat (3 / 2) \<and>
   sim_seconds (build_row ''superscalar'' ''matmul'' [''ipc'' \<mapsto> VFloat (3 / 2)]) = VInt 0 \<and>
   [''ipc'' \<mapsto> VFloat (3 / 2)] ''sim_seconds'' = None \<and>
   (''sim_seconds'', (''sim_seconds'', Numeric)) \<in> set patterns \<and>
   re_search (''sim_seconds'', Numeric) ''system.cpu.ipc 1.5'' = None \<and>
   parse_stats_content ''system.cpu.ipc 1.5'' = Inr (extract_metrics ''system.cpu.ipc 1.5'') \<and>
   extract_metrics ''system.cpu.ipc 1.5'' ''sim_seconds'' = None"
proof -
  let ?st = "[''ipc'' \<mapsto> VFloat (3 / 2)] :: metrics"
  let ?d = "\<lparr>stats = ?st, config_path = None\<rparr>"
  let ?ed = "[(''matmul'', ?d)]"
  let ?exps = "[(''superscalar'', ?ed)]"
  note t = comparison_row_defaults [of "''superscalar''" ?exps "''matmul''" ?st
      "''system.cpu.ipc 1.5''"]
  have m1: "(''superscalar'', ?ed) \<in> set ?exps" and m2: "(''matmul'', ?d) \<in> set ?ed"
    by simp_all
  have pat: "(''sim_seconds'', (''sim_seconds'', Numeric)) \<in> set patterns"
    by (simp add: patterns_def)
  have no: "re_search (''sim_seconds'', Numeric) ''system.cpu.ipc 1.5'' = None"
    by (simp add: search_eval)
  have ret: "parse_stats_content ''system.cpu.ipc 1.5'' = Inr (extract_metrics ''system.cpu.ipc 1.5'')"
    by (rule parse_no_derived) (simp_all add: sample_eval)
  have r1: "build_row ''superscalar'' ''matmul'' ?st \<in> set (comparison_data ?exps)"
    using t [THEN conjunct1, rule_format, OF m1 m2] by simp
  have r2: "ipc (build_row ''superscalar'' ''matmul'' ?st) = VFloat (3 / 2)"
    and r3: "sim_seconds (build_row ''superscalar'' ''matmul'' ?st) = VInt 0"
    using t by simp_all
  have r4: "extract_metrics ''system.cpu.ipc 1.5'' ''sim_seconds'' = None"
    using t pat no ret by blast
  show ?thesis using m1 m2 pat no ret r1 r2 r3 r4 by simp
qed

section \<open>The mean by experiment\<close>

lemma ipc_by_filter:
  "list_all (\<lambda>r. num_of (ipc r) \<noteq> None) df \<Longrightarrow>
   map snd (filter (\<lambda>kv. fst kv = l)
      (List.map_filter (\<lambda>r. map_option (Pair (label r)) (num_of (ipc r))) df)) =
   List.map_filter (\<lambda>r. num_of (ipc r)) (filter (\<lambda>r. label r = l) df)"
  by (induction df) (auto simp: map_filter_simps)

lemma ipc_by_labels_list:
  "list_all (\<lambda>r. num_of (ipc r) \<noteq> None) df \<Longrightarrow>
   map fst (List.map_filter (\<lambda>r. map_option (Pair (label r)) (num_of (ipc r))) df) =
   map label df"
  by (induction df) (auto simp: map_filter_simps)

lemma ipc_by_labels:
  assumes "list_all (\<lambda>r. num_of (ipc r) \<noteq> None) df"
  shows "fst ` set (List.map_filter (\<lambda>r. map_option (Pair (label r)) (num_of (ipc r))) df) =
         label ` set df"
proof -
  have "set (map fst (List.map_filter (\<lambda>r. map_option (Pair (label r)) (num_of (ipc r))) df)) =
        set (map label df)"
    using ipc_by_labels_list [OF assms, of label] by simp
  then show ?thesis by simp
qed

lemma groupby_mean_lookup:
  assumes "l \<in> fst ` set kvs"
  shows "map_of (groupby_mean kvs) l = Some (mean (map snd (filter (\<lambda>kv. fst kv = l) kvs)))"
proof -
  have "l \<in> set (sort (remdups (map fst kvs)))" using assms by simp
  then show ?thesis
    unfolding groupby_mean_def by (simp add: map_of_map_restrict)
qed

lemma ipc_by_mean:
  assumes "map_option groupby_mean (ipc_by label df) = Some avgs" and "r \<in> set df"
  shows "map_of avgs (label r) =
    Some (mean (List.map_filter (\<lambda>x. num_of (ipc x)) (filter (\<lambda>x. label x = label r) df)))"
proof -
  have num: "list_all (\<lambda>r. num_of (ipc r) \<noteq> None) df"
    using assms(1) by (auto simp: ipc_by_def split: if_splits)
  let ?kvs = "List.map_filter (\<lambda>r. map_option (Pair (label r)) (num_of (ipc r))) df"
  have avgs: "avgs = groupby_mean ?kvs"
    using assms(1) num by (simp add: ipc_by_def)
  have "label r \<in> fst ` set ?kvs"
    using assms(2) ipc_by_labels [OF num, of label] by blast
  then show ?thesis
    unfolding avgs using groupby_mean_lookup [of "label r" ?kvs] ipc_by_filter [OF num, of "label r" label]
    by simp
qed

text \<open>
  C8: for a table whose \<open>ipc\<close> column is numeric, the value reported for the experiment
  label of any row is the sum of the \<open>ipc\<close> values of all rows with that label divided by
  their number. Three rows with \<open>1.0\<close>, \<open>2.0\<close> and \<open>3.0\<close> under one label give \<open>2.0\<close>
  (the witness).
\<close>

theorem experiment_mean:
  assumes "exp_avg df = Some avgs" and "r \<in> set df"
  shows "map_of avgs (experiment_name r) =
    Some (sum_list (List.map_filter (\<lambda>x. num_of (ipc x))
                      (filter (\<lambda>x. experiment_name x = experiment_name r) df)) /
          of_nat (length (List.map_filter (\<lambda>x. num_of (ipc x))
                      (filter (\<lambda>x. experiment_name x = experiment_name r) df))))"
  using ipc_by_mean [of experiment_name df avgs r] assms
  by (simp add: exp_avg_def mean_def)


theorem experiment_mean_witness:
  "exp_avg [build_row ''superscalar'' ''a'' [''ipc'' \<mapsto> VFloat 1],
            build_row ''superscalar'' ''b'' [''ipc'' \<mapsto> VFloat 2],
            build_row ''basic_pipeline'' ''a'' [''ipc'' \<mapsto> VFloat 7],
            build_row ''superscalar'' ''c'' [''ipc'' \<mapsto> VFloat 3]] =
     Some [(''basic_pipeline'', 7), (''superscalar'', 2)] \<and>
   build_row ''superscalar'' ''a'' [''ipc'' \<mapsto> VFloat 1] \<in>
     set [build_row ''superscalar'' ''a'' [''ipc'' \<mapsto> VFloat 1],
          build_row ''superscalar'' ''b'' [''ipc'' \<mapsto> VFloat 2],
          build_row ''basic_pipeline'' ''a'' [''ipc'' \<mapsto> VFloat 7],
          build_row ''superscalar'' ''c'' [''ipc'' \<mapsto> VFloat 3]] \<and>
   map_of [(''basic_pipeline'', 7 :: rat), (''superscalar'', 2)] ''superscalar'' = Some 2"
proof -
  let ?r1 = "build_row ''superscalar'' ''a'' [''ipc'' \<mapsto> VFloat 1]"
  let ?df = "[?r1, build_row ''superscalar'' ''b'' [''ipc'' \<mapsto> VFloat 2],
            build_row ''basic_pipeline'' ''a'' [''ipc'' \<mapsto> VFloat 7],
            build_row ''superscalar'' ''c'' [''ipc'' \<mapsto> VFloat 3]]"
  have le: "''basic_pipeline'' \<le> ''superscalar''" "\<not> ''superscalar'' \<le> ''basic_pipeline''"
    by (simp_all add: less_eq_char_def less_char_def)
  have a: "exp_avg ?df = Some [(''basic_pipeline'', 7), (''superscalar'', 2)]"
    using le
    by (simp add: exp_avg_def ipc_by_def groupby_mean_def mean_def build_row_def
        dict_get_def map_filter_simps)
  have b: "?r1 \<in> set ?df" by simp
  have "map_of [(''basic_pipeline'', 7 :: rat), (''superscalar'', 2)] (experiment_name ?r1) =
      Some 2"
    using experiment_mean [OF a b]
    by (simp add: build_row_def dict_get_def map_filter_simps)
  then show ?thesis using a b by (simp add: build_row_def)
qed

end
